theory Spec2Isabelle
  imports Main
begin

section \<open>HALL: the coordination kernel of the hall-mcp server\<close>

text \<open>
  A shallow embedding of the lease manager (\<^verbatim>\<open>HallState\<close> in \<^verbatim>\<open>core/state.ts\<close>), of the
  two tool handlers \<^verbatim>\<open>hall_claim\<close> and \<^verbatim>\<open>hall_claim_release\<close> of the MCP server, and of
  the event ring buffer of \<^verbatim>\<open>index.ts\<close>.

  Conventions of the model.
  \<^item> A JavaScript string is a \<open>string\<close>; one \<open>char\<close> stands for one UTF-16 code unit, which
    is what \<^verbatim>\<open>s.length\<close> and \<^verbatim>\<open>s.slice\<close> count.
  \<^item> Timestamps (\<^verbatim>\<open>Date.now()\<close>, milliseconds) and the ttl are JavaScript numbers that hold
    integers (the tool schema admits an integer ttl only); they are \<open>int\<close> here. Every call
    of \<^verbatim>\<open>now()\<close> in the source is a separate parameter of the model, in the order in which
    the source reads the clock, so that a clock tick between two reads of one operation is
    an input like any other.
  \<^item> \<^verbatim>\<open>nanoid(12)\<close> is a parameter: the fresh identifier is supplied by the caller.
  \<^item> A table of the SQLite store is the list of its rows in insertion (rowid) order. The
    store gives back the strings it was given: its text encoding is not modelled.
  \<^item> Logging has no effect on the store and is left out.
\<close>

subsection \<open>Data model (\<^verbatim>\<open>core/types.ts\<close> and the row types of \<^verbatim>\<open>core/state.ts\<close>)\<close>

record Task =
  task_id :: string
  task_title :: string
  task_description :: "string option"
  task_createdAt :: int

record Intent =
  intent_id :: string
  intent_taskId :: string
  intent_agentId :: string
  intent_files :: "string list"
  intent_boundaries :: "string option"
  intent_acceptanceCriteria :: "string option"
  intent_createdAt :: int

record Claim =
  agentId :: string
  files :: "string list"
  expiresAt :: int
  createdAt :: int

record Evidence =
  evidence_id :: string
  evidence_taskId :: string
  evidence_agentId :: string
  evidence_command :: string
  evidence_output :: string
  evidence_createdAt :: int

record ClaimRow =
  agent_id :: string
  file_path :: string
  expires_at :: int
  created_at :: int

datatype HallEvent =
    FileChanged string int
  | FileAdded string int
  | FileDeleted string int
  | TaskCreated string int
  | IntentPosted string string int
  | ClaimCreated string "string list" int int
  | ClaimConflict string "string list" "string list" int
  | EvidenceAttached string string int
  | GateResult bool string int

text \<open>
  The store: the four tables of \<^verbatim>\<open>migrate\<close>. The \<^verbatim>\<open>tasks\<close>, \<^verbatim>\<open>intents\<close> and \<^verbatim>\<open>evidence\<close>
  rows carry the same fields as the objects of \<^verbatim>\<open>types.ts\<close> (the list of files of an intent is
  stored as JSON text and parsed back on reading), so the model stores the objects.
\<close>

record HallDb =
  tasks :: "Task list"
  intents :: "Intent list"
  claims :: "ClaimRow list"
  evidence :: "Evidence list"

subsection \<open>The event ring buffer (\<^verbatim>\<open>EventRing\<close> and \<^verbatim>\<open>broadcast\<close> in \<^verbatim>\<open>index.ts\<close>)\<close>

record 'e EventRing =
  buffer :: "'e list"
  maxSize :: nat

definition newEventRing :: "nat \<Rightarrow> 'e EventRing" where
  "newEventRing n = \<lparr>buffer = [], maxSize = n\<rparr>"

text \<open>\<^verbatim>\<open>Array.prototype.shift\<close> removes the first element and does nothing on an empty array,
  which is \<open>tl\<close>.\<close>

definition push :: "'e \<Rightarrow> 'e EventRing \<Rightarrow> 'e EventRing" where
  "push evt r =
     (let shifted = (if length (buffer r) \<ge> maxSize r then tl (buffer r) else buffer r)
      in r\<lparr>buffer := shifted @ [evt]\<rparr>)"

definition toArray :: "'e EventRing \<Rightarrow> 'e list" where
  "toArray r = buffer r"

record WsClient =
  readyState :: nat
  sent :: "HallEvent list"

record Hub =
  eventRing :: "HallEvent EventRing"
  wsClients :: "WsClient list"

definition newHub :: Hub where
  "newHub = \<lparr>eventRing = newEventRing 500, wsClients = []\<rparr>"

definition broadcast :: "HallEvent \<Rightarrow> Hub \<Rightarrow> Hub" where
  "broadcast evt h =
     h\<lparr>eventRing := push evt (eventRing h),
       wsClients := map (\<lambda>c. if readyState c = 1 then c\<lparr>sent := sent c @ [evt]\<rparr> else c)
                        (wsClients h)\<rparr>"

text \<open>Publishing a sequence of events, in arrival order.\<close>

definition publishAll :: "HallEvent list \<Rightarrow> Hub \<Rightarrow> Hub" where
  "publishAll evts h = foldl (\<lambda>h e. broadcast e h) h evts"

text \<open>The snapshot served at \<^verbatim>\<open>/api/events\<close>.\<close>

definition snapshot :: "Hub \<Rightarrow> HallEvent list" where
  "snapshot h = toArray (eventRing h)"

subsection \<open>The entity store (\<^verbatim>\<open>HallState\<close> in \<^verbatim>\<open>core/state.ts\<close>)\<close>

text \<open>What a call can throw. \<^verbatim>\<open>ConstraintFailed\<close> is the store rejecting an \<^verbatim>\<open>INSERT\<close> whose
  primary key exists already; \<^verbatim>\<open>ZodError\<close> is a tool input that does not fit its schema.\<close>

datatype error = UnknownTaskId string | ConstraintFailed | ZodError

definition MAX_OUTPUT_CHARS :: nat where
  "MAX_OUTPUT_CHARS = 20000"

text \<open>The decimal digits of a number, as the template literal
  \<^verbatim>\<open>`${MAX_OUTPUT_CHARS}`\<close> renders it.\<close>

definition digit :: "nat \<Rightarrow> char" where
  "digit d = ''0123456789'' ! d"

function decimal :: "nat \<Rightarrow> string" where
  "decimal n = (if n < 10 then [digit n] else decimal (n div 10) @ [digit (n mod 10)])"
  by pat_completeness auto
termination
  by (relation "measure id") auto

declare decimal.simps [simp del]

definition clipOutput :: "string \<Rightarrow> string" where
  "clipOutput s =
     (if length s \<le> MAX_OUTPUT_CHARS then s
      else take MAX_OUTPUT_CHARS s @
           [CHR 0x0A] @ ''[clipped to '' @ decimal MAX_OUTPUT_CHARS @ '' chars]'')"

definition getTask :: "string \<Rightarrow> HallDb \<Rightarrow> Task option" where
  "getTask tid s = find (\<lambda>t. task_id t = tid) (tasks s)"

text \<open>\<^verbatim>\<open>createTask(title, description)\<close>; \<open>newId\<close> is the result of \<^verbatim>\<open>nanoid(12)\<close> and
  \<open>t\<close> the clock.\<close>

definition createTask ::
  "string \<Rightarrow> string option \<Rightarrow> string \<Rightarrow> int \<Rightarrow> HallDb \<Rightarrow> error + (Task \<times> HallDb)" where
  "createTask title description newId t s =
     (let task = \<lparr>task_id = newId, task_title = title, task_description = description,
                  task_createdAt = t\<rparr>
      in if newId \<in> set (map task_id (tasks s)) then Inl ConstraintFailed
         else Inr (task, s\<lparr>tasks := tasks s @ [task]\<rparr>))"

text \<open>\<^verbatim>\<open>postIntent(input)\<close>, the fields of \<^verbatim>\<open>input\<close> in the order of the source.\<close>

definition postIntent ::
  "string \<Rightarrow> string \<Rightarrow> string list \<Rightarrow> string option \<Rightarrow> string option \<Rightarrow> string \<Rightarrow> int \<Rightarrow>
   HallDb \<Rightarrow> error + (Intent \<times> HallDb)" where
  "postIntent taskId agent paths boundaries acceptanceCriteria newId t s =
     (case getTask taskId s of
        None \<Rightarrow> Inl (UnknownTaskId taskId)
      | Some task \<Rightarrow>
          (let intent = \<lparr>intent_id = newId, intent_taskId = taskId, intent_agentId = agent,
                         intent_files = paths, intent_boundaries = boundaries,
                         intent_acceptanceCriteria = acceptanceCriteria, intent_createdAt = t\<rparr>
           in if newId \<in> set (map intent_id (intents s)) then Inl ConstraintFailed
              else Inr (intent, s\<lparr>intents := intents s @ [intent]\<rparr>)))"

text \<open>\<^verbatim>\<open>attachEvidence(input)\<close>: the stored output is \<^verbatim>\<open>clipOutput(input.output)\<close>.\<close>

definition attachEvidence ::
  "string \<Rightarrow> string \<Rightarrow> string \<Rightarrow> string \<Rightarrow> string \<Rightarrow> int \<Rightarrow> HallDb \<Rightarrow>
   error + (Evidence \<times> HallDb)" where
  "attachEvidence taskId agent command output newId t s =
     (case getTask taskId s of
        None \<Rightarrow> Inl (UnknownTaskId taskId)
      | Some task \<Rightarrow>
          (let ev = \<lparr>evidence_id = newId, evidence_taskId = taskId, evidence_agentId = agent,
                     evidence_command = command, evidence_output = clipOutput output,
                     evidence_createdAt = t\<rparr>
           in if newId \<in> set (map evidence_id (evidence s)) then Inl ConstraintFailed
              else Inr (ev, s\<lparr>evidence := evidence s @ [ev]\<rparr>)))"

subsection \<open>The lease manager (\<^verbatim>\<open>HallState\<close> in \<^verbatim>\<open>core/state.ts\<close>)\<close>

text \<open>\<^verbatim>\<open>DELETE FROM claims WHERE expires_at <= ?\<close> at the clock reading \<open>t\<close>.\<close>

definition pruneExpiredClaims :: "int \<Rightarrow> HallDb \<Rightarrow> HallDb" where
  "pruneExpiredClaims t s = s\<lparr>claims := filter (\<lambda>r. \<not> expires_at r \<le> t) (claims s)\<rparr>"

text \<open>\<^verbatim>\<open>SELECT DISTINCT agent_id FROM claims WHERE agent_id != ? AND expires_at > ? AND
  file_path IN (...)\<close> at the clock reading \<open>t\<close>. Each holder is listed once, at the place of
  its first matching row (\<open>remdups\<close> keeps the last occurrence of an element, hence the two
  reversals).\<close>

definition findConflicts :: "string \<Rightarrow> string list \<Rightarrow> int \<Rightarrow> HallDb \<Rightarrow> string list" where
  "findConflicts agent paths t s =
     (if length paths = 0 then []
      else rev (remdups (rev (map agent_id
             (filter (\<lambda>r. agent_id r \<noteq> agent \<and> expires_at r > t \<and> file_path r \<in> set paths)
                     (claims s))))))"

text \<open>\<^verbatim>\<open>INSERT OR REPLACE\<close> under \<^verbatim>\<open>PRIMARY KEY(agent_id, file_path)\<close>: a row with the same key
  is deleted and the new row is added at the end.\<close>

definition insertOrReplace :: "ClaimRow \<Rightarrow> ClaimRow list \<Rightarrow> ClaimRow list" where
  "insertOrReplace row rows =
     filter (\<lambda>r. \<not> (agent_id r = agent_id row \<and> file_path r = file_path row)) rows @ [row]"

record CreateClaimResult =
  claim :: Claim
  conflictsWith :: "string list"

text \<open>\<^verbatim>\<open>createClaim(agentId, files, ttlSeconds)\<close>. The source reads the clock three times:
  \<open>t1\<close> in \<^verbatim>\<open>pruneExpiredClaims\<close>, \<open>t2\<close> for \<^verbatim>\<open>createdAt\<close>, \<open>t3\<close> in \<^verbatim>\<open>findConflicts\<close>.\<close>

definition createClaim ::
  "string \<Rightarrow> string list \<Rightarrow> int \<Rightarrow> int \<Rightarrow> int \<Rightarrow> int \<Rightarrow> HallDb \<Rightarrow> CreateClaimResult \<times> HallDb" where
  "createClaim agent paths ttlSeconds t1 t2 t3 s =
     (let s1 = pruneExpiredClaims t1 s;
          ttlMs = max 5 ttlSeconds * 1000;
          created = t2;
          expires = created + ttlMs;
          conflicts = findConflicts agent paths t3 s1;
          granted = \<lparr>agentId = agent, files = paths, expiresAt = expires, createdAt = created\<rparr>
      in if length conflicts > 0
         then (\<lparr>claim = granted, conflictsWith = conflicts\<rparr>, s1)
         else (\<lparr>claim = granted, conflictsWith = []\<rparr>,
               s1\<lparr>claims :=
                    foldl (\<lambda>rows p. insertOrReplace
                             \<lparr>agent_id = agent, file_path = p, expires_at = expires,
                              created_at = created\<rparr> rows)
                          (claims s1) paths\<rparr>))"

text \<open>The entry of the \<^verbatim>\<open>byAgent\<close> map of \<^verbatim>\<open>listActiveClaims\<close>. The map is a list of
  pairs in insertion order, which is the order in which a JavaScript \<^verbatim>\<open>Map\<close> iterates.\<close>

record Entry =
  e_files :: "string list"
  e_expiresAt :: int
  e_createdAt :: int

text \<open>One turn of the loop over the selected rows.\<close>

definition groupRow :: "ClaimRow \<Rightarrow> (string \<times> Entry) list \<Rightarrow> (string \<times> Entry) list" where
  "groupRow r byAgent =
     (let byAgent1 =
            (case map_of byAgent (agent_id r) of
               None \<Rightarrow> byAgent @ [(agent_id r, \<lparr>e_files = [], e_expiresAt = expires_at r,
                                                e_createdAt = created_at r\<rparr>)]
             | Some entry \<Rightarrow> byAgent)
      in map (\<lambda>(a, entry).
                if a = agent_id r
                then (a, \<lparr>e_files = e_files entry @ [file_path r],
                          e_expiresAt = max (e_expiresAt entry) (expires_at r),
                          e_createdAt = min (e_createdAt entry) (created_at r)\<rparr>)
                else (a, entry)) byAgent1)"

definition groupRows :: "ClaimRow list \<Rightarrow> (string \<times> Entry) list" where
  "groupRows rows = foldl (\<lambda>byAgent r. groupRow r byAgent) [] rows"

text \<open>\<^verbatim>\<open>SELECT ... FROM claims ORDER BY created_at DESC\<close>. Rows with equal \<^verbatim>\<open>created_at\<close>
  are kept in table order here; SQL leaves their order open.\<close>

definition selectClaimsNewestFirst :: "HallDb \<Rightarrow> ClaimRow list" where
  "selectClaimsNewestFirst s = sort_key (\<lambda>r. - created_at r) (claims s)"

definition listActiveClaims :: "int \<Rightarrow> HallDb \<Rightarrow> Claim list \<times> HallDb" where
  "listActiveClaims t s =
     (let s1 = pruneExpiredClaims t s;
          rows = selectClaimsNewestFirst s1
      in (map (\<lambda>(a, v). \<lparr>agentId = a, files = e_files v, expiresAt = e_expiresAt v,
                          createdAt = e_createdAt v\<rparr>) (groupRows rows),
          s1))"

text \<open>\<^verbatim>\<open>releaseClaims(agentId, files?)\<close>: the number of rows deleted and the new store. The
  source reads no clock here.\<close>

definition releaseClaims :: "string \<Rightarrow> string list option \<Rightarrow> HallDb \<Rightarrow> nat \<times> HallDb" where
  "releaseClaims agent filesOpt s =
     (let doomed =
            (case filesOpt of
               Some paths \<Rightarrow>
                 if length paths > 0
                 then (\<lambda>r. agent_id r = agent \<and> file_path r \<in> set paths)
                 else (\<lambda>r. agent_id r = agent)
             | None \<Rightarrow> (\<lambda>r. agent_id r = agent))
      in (length (filter doomed (claims s)),
          s\<lparr>claims := filter (\<lambda>r. \<not> doomed r) (claims s)\<rparr>))"

record StatusInfo =
  taskCount :: nat
  intentCount :: nat
  claimCount :: nat
  evidenceCount :: nat
  status_now :: int

text \<open>\<^verbatim>\<open>status()\<close>: the clock is read in \<^verbatim>\<open>pruneExpiredClaims\<close> (\<open>t1\<close>) and for the field
  \<^verbatim>\<open>now\<close> (\<open>t2\<close>).\<close>

definition status :: "int \<Rightarrow> int \<Rightarrow> HallDb \<Rightarrow> StatusInfo \<times> HallDb" where
  "status t1 t2 s =
     (let s1 = pruneExpiredClaims t1 s
      in (\<lparr>taskCount = length (tasks s1), intentCount = length (intents s1),
           claimCount = length (claims s1), evidenceCount = length (evidence s1),
           status_now = t2\<rparr>, s1))"

subsection \<open>Sequences of lease operations\<close>

datatype LeaseOp =
    CreateClaim string "string list" int int int int
  | ReleaseClaims string "string list option"
  | ListActiveClaims int
  | Status int int

fun applyOp :: "LeaseOp \<Rightarrow> HallDb \<Rightarrow> HallDb" where
  "applyOp (CreateClaim agent paths ttlSeconds t1 t2 t3) s =
     snd (createClaim agent paths ttlSeconds t1 t2 t3 s)"
| "applyOp (ReleaseClaims agent filesOpt) s = snd (releaseClaims agent filesOpt s)"
| "applyOp (ListActiveClaims t) s = snd (listActiveClaims t s)"
| "applyOp (Status t1 t2) s = snd (status t1 t2 s)"

text \<open>The clock readings of an operation, in the order in which it takes them.\<close>

fun clockReads :: "LeaseOp \<Rightarrow> int list" where
  "clockReads (CreateClaim agent paths ttlSeconds t1 t2 t3) = [t1, t2, t3]"
| "clockReads (ReleaseClaims agent filesOpt) = []"
| "clockReads (ListActiveClaims t) = [t]"
| "clockReads (Status t1 t2) = [t1, t2]"

definition run :: "LeaseOp list \<Rightarrow> HallDb \<Rightarrow> HallDb" where
  "run ops s = foldl (\<lambda>s op. applyOp op s) s ops"

definition clockTrace :: "LeaseOp list \<Rightarrow> int list" where
  "clockTrace ops = concat (map clockReads ops)"

text \<open>The agents with a lease on \<open>p\<close> that is live at time \<open>t\<close>, each once.\<close>

definition liveHolders :: "string \<Rightarrow> int \<Rightarrow> HallDb \<Rightarrow> string list" where
  "liveHolders p t s =
     remdups (map agent_id (filter (\<lambda>r. file_path r = p \<and> expires_at r > t) (claims s)))"

definition emptyDb :: HallDb where
  "emptyDb = \<lparr>tasks = [], intents = [], claims = [], evidence = []\<rparr>"

text \<open>The invariant of the lease table at clock \<open>c\<close>: two rows on one path that are both
  live at \<open>c\<close> belong to one agent.\<close>

definition mutexAt :: "int \<Rightarrow> ClaimRow list \<Rightarrow> bool" where
  "mutexAt c rows =
     (\<forall>r1\<in>set rows. \<forall>r2\<in>set rows.
        file_path r1 = file_path r2 \<and> c < expires_at r1 \<and> c < expires_at r2
        \<longrightarrow> agent_id r1 = agent_id r2)"

subsection \<open>The workflow guard: helpers of \<^verbatim>\<open>HallState\<close> that the tool handlers call\<close>

text \<open>
  The handlers \<^verbatim>\<open>hall_claim\<close> and \<^verbatim>\<open>hall_claim_release\<close> call three methods of
  \<^verbatim>\<open>HallState\<close>, \<^verbatim>\<open>hasIntentForFiles\<close>, \<^verbatim>\<open>getAgentClaims\<close> and \<^verbatim>\<open>hasEvidenceForTask\<close>, whose
  bodies are not part of the available sources. They are written here from the
  specification's description of the workflow guard.
\<close>

record IntentCheck =
  hasIntent :: bool
  missingFiles :: "string list"

text \<open>Modelled from the spec: the body of \<^verbatim>\<open>HallState.hasIntentForFiles\<close> is missing.
  The specification permits \<^verbatim>\<open>acquire\<close> only if every requested path has a prior intent
  recorded for that agent, and otherwise has the rejection carry the list of files missing
  intent. A file has an intent when some stored intent of the agent lists that path; the
  missing files are the requested files without one, in the order of the request.\<close>

definition hasIntentForFiles :: "string \<Rightarrow> string list \<Rightarrow> HallDb \<Rightarrow> IntentCheck" where
  "hasIntentForFiles agent paths s =
     (let declared = concat (map intent_files
                        (filter (\<lambda>i. intent_agentId i = agent) (intents s)));
          missing = filter (\<lambda>f. f \<notin> set declared) paths
      in \<lparr>hasIntent = (length missing = 0), missingFiles = missing\<rparr>)"

text \<open>Modelled from the spec: the body of \<^verbatim>\<open>HallState.getAgentClaims\<close> is missing.
  The specification has every read path of the lease table first delete the rows with
  \<^verbatim>\<open>expiresAt <= now\<close>; the active claims of an agent are then the paths of its remaining
  rows.\<close>

definition getAgentClaims :: "string \<Rightarrow> int \<Rightarrow> HallDb \<Rightarrow> string list \<times> HallDb" where
  "getAgentClaims agent t s =
     (let s1 = pruneExpiredClaims t s
      in (map file_path (filter (\<lambda>r. agent_id r = agent) (claims s1)), s1))"

record EvidenceCheck =
  hasEvidence :: bool

text \<open>Modelled from the spec: the body of \<^verbatim>\<open>HallState.hasEvidenceForTask\<close> is missing.
  The specification rejects a release if the agent has no evidence recorded, on any task:
  the check is that the evidence table holds a row of the agent. (The store keeps no record
  of releases, so "since its last release" cannot be read from it.)\<close>

definition hasEvidenceForTask :: "string \<Rightarrow> HallDb \<Rightarrow> EvidenceCheck" where
  "hasEvidenceForTask agent s =
     \<lparr>hasEvidence = (length (filter (\<lambda>e. evidence_agentId e = agent) (evidence s)) > 0)\<rparr>"

subsection \<open>The tool handlers \<^verbatim>\<open>hall_claim\<close> and \<^verbatim>\<open>hall_claim_release\<close> of the MCP server\<close>

text \<open>The arguments of the two tools, and their zod schemas: \<^verbatim>\<open>parse\<close> throws a
  \<^verbatim>\<open>ZodError\<close> on arguments outside the schema. A ttl that is not an integer is excluded by
  the type \<open>int\<close>.\<close>

record ClaimCreateArgs =
  cc_agentId :: string
  cc_files :: "string list"
  cc_ttlSeconds :: "int option"

record ClaimReleaseArgs =
  cr_agentId :: string
  cr_files :: "string list option"

definition ClaimCreateInput_parse :: "ClaimCreateArgs \<Rightarrow> error + ClaimCreateArgs" where
  "ClaimCreateInput_parse args =
     (if 1 \<le> length (cc_agentId args) \<and> length (cc_agentId args) \<le> 120 \<and>
         1 \<le> length (cc_files args) \<and> length (cc_files args) \<le> 200 \<and>
         list_all (\<lambda>f. 1 \<le> length f) (cc_files args) \<and>
         (case cc_ttlSeconds args of None \<Rightarrow> True | Some n \<Rightarrow> 5 \<le> n \<and> n \<le> 3600)
      then Inr args else Inl ZodError)"

definition ClaimReleaseInput_parse :: "ClaimReleaseArgs \<Rightarrow> error + ClaimReleaseArgs" where
  "ClaimReleaseInput_parse args =
     (if 1 \<le> length (cr_agentId args) \<and> length (cr_agentId args) \<le> 120 \<and>
         (case cr_files args of
            None \<Rightarrow> True
          | Some paths \<Rightarrow> 1 \<le> length paths \<and> length paths \<le> 200 \<and>
                          list_all (\<lambda>f. 1 \<le> length f) paths)
      then Inr args else Inl ZodError)"

text \<open>\<^verbatim>\<open>Array.prototype.join\<close>.\<close>

fun join :: "string \<Rightarrow> string list \<Rightarrow> string" where
  "join sep [] = []"
| "join sep [x] = x"
| "join sep (x # y # ys) = x @ sep @ join sep (y # ys)"

text \<open>The JSON object that a handler returns as text, one constructor for each shape:
  \<^item> \<open>ClaimRejection status reason message missingFiles\<close>,
  \<^item> \<open>ClaimReply status claim conflictsWith message\<close> (no message when the claim is granted),
  \<^item> \<open>ReleaseRejection status reason message activeClaims\<close>,
  \<^item> \<open>ReleaseReply status released files\<close> (\<open>None\<close> is the text \<^verbatim>\<open>all\<close>),
  \<^item> \<open>ErrorText e\<close>, the text made from a caught exception.
  In the result, \<open>isError = None\<close> is a result without the field \<^verbatim>\<open>isError\<close>.\<close>

datatype Body =
    ClaimRejection string string string "string list"
  | ClaimReply string Claim "string list" "string option"
  | ReleaseRejection string string string "string list"
  | ReleaseReply string nat "string list option"
  | ErrorText error

record ToolResult =
  content :: Body
  isError :: "bool option"

definition hall_claim ::
  "ClaimCreateArgs \<Rightarrow> int \<Rightarrow> int \<Rightarrow> int \<Rightarrow> HallDb \<Rightarrow> ToolResult \<times> HallDb" where
  "hall_claim args t1 t2 t3 s =
     (case ClaimCreateInput_parse args of
        Inl e \<Rightarrow> (\<lparr>content = ErrorText e, isError = Some True\<rparr>, s)
      | Inr input \<Rightarrow>
          (let intentCheck = hasIntentForFiles (cc_agentId input) (cc_files input) s
           in if \<not> hasIntent intentCheck
              then (\<lparr>content = ClaimRejection ''rejected'' ''NO_INTENT''
                        (''You must post an intent (hall_intent_post) before claiming files. Missing intent for: ''
                           @ join '', '' (missingFiles intentCheck))
                        (missingFiles intentCheck),
                     isError = Some True\<rparr>, s)
              else
                (let (result, s') =
                       createClaim (cc_agentId input) (cc_files input)
                         (case cc_ttlSeconds input of None \<Rightarrow> 900 | Some n \<Rightarrow> n) t1 t2 t3 s
                 in if length (conflictsWith result) > 0
                    then (\<lparr>content = ClaimReply ''conflict'' (claim result) (conflictsWith result)
                              (Some (''Files already claimed by: ''
                                       @ join '', '' (conflictsWith result))),
                           isError = None\<rparr>, s')
                    else (\<lparr>content = ClaimReply ''ok'' (claim result) [] None,
                           isError = None\<rparr>, s'))))"

definition hall_claim_release ::
  "ClaimReleaseArgs \<Rightarrow> int \<Rightarrow> HallDb \<Rightarrow> ToolResult \<times> HallDb" where
  "hall_claim_release args t s =
     (case ClaimReleaseInput_parse args of
        Inl e \<Rightarrow> (\<lparr>content = ErrorText e, isError = Some True\<rparr>, s)
      | Inr input \<Rightarrow>
          (let (activeClaims, s1) = getAgentClaims (cr_agentId input) t s;
               rejection =
                 (if length activeClaims > 0
                  then (let evidenceCheck = hasEvidenceForTask (cr_agentId input) s1
                        in if \<not> hasEvidence evidenceCheck
                           then Some \<lparr>content = ReleaseRejection ''rejected'' ''NO_EVIDENCE''
                                         ''You must attach evidence (hall_evidence_attach) proving your work before releasing claims. No receipts = no release.''
                                         activeClaims,
                                      isError = Some True\<rparr>
                           else None)
                  else None)
           in case rejection of
                Some rejected \<Rightarrow> (rejected, s1)
              | None \<Rightarrow>
                  (let (released, s2) = releaseClaims (cr_agentId input) (cr_files input) s1
                   in (\<lparr>content = ReleaseReply ''ok'' released (cr_files input),
                         isError = None\<rparr>, s2))))"

subsection \<open>A sample store\<close>

text \<open>One task, an intent of each of the agents A and B for \<^verbatim>\<open>x.ts\<close>, a lease of A on
  \<^verbatim>\<open>x.ts\<close> taken at clock 0 for 900 seconds, no evidence. The theorems below are instantiated
  on it.\<close>

definition exampleDb :: HallDb where
  "exampleDb =
     \<lparr>tasks = [\<lparr>task_id = ''task-1'', task_title = ''Fix the router'', task_description = None,
                 task_createdAt = 0\<rparr>],
      intents = [\<lparr>intent_id = ''intent-1'', intent_taskId = ''task-1'', intent_agentId = ''A'',
                   intent_files = [''x.ts''], intent_boundaries = None,
                   intent_acceptanceCriteria = Some ''Tests pass'', intent_createdAt = 0\<rparr>,
                 \<lparr>intent_id = ''intent-2'', intent_taskId = ''task-1'', intent_agentId = ''B'',
                   intent_files = [''x.ts''], intent_boundaries = None,
                   intent_acceptanceCriteria = Some ''Tests pass'', intent_createdAt = 0\<rparr>],
      claims = [\<lparr>agent_id = ''A'', file_path = ''x.ts'', expires_at = 900000, created_at = 0\<rparr>],
      evidence = []\<rparr>"


section \<open>The event ring buffer\<close>

lemma eventRing_broadcast [simp]: "eventRing (broadcast e h) = push e (eventRing h)"
  by (simp add: broadcast_def)

lemma maxSize_push [simp]: "maxSize (push e r) = maxSize r"
  by (simp add: push_def Let_def)

lemma buffer_push_suffix:
  assumes "buffer r = drop (length xs - n) xs" and "maxSize r = n" and "0 < n"
  shows "buffer (push e r) = drop (length (xs @ [e]) - n) (xs @ [e])"
proof (cases "n \<le> length xs")
  case True
  then have len: "length (buffer r) = n" using assms(1) by simp
  have "tl (drop (length xs - n) xs) = drop (Suc (length xs - n)) xs"
    by (simp add: drop_Suc tl_drop)
  moreover have "Suc (length xs - n) = Suc (length xs) - n" using True by simp
  ultimately show ?thesis
    using assms len True by (simp add: push_def Let_def)
next
  case False
  then have "length (buffer r) < n" using assms(1) by simp
  then show ?thesis using assms False by (simp add: push_def Let_def)
qed

lemma publishAll_snoc: "publishAll (evts @ [e]) h = broadcast e (publishAll evts h)"
  by (simp add: publishAll_def)

lemma publishAll_ring:
  "maxSize (eventRing (publishAll evts newHub)) = 500 \<and>
   buffer (eventRing (publishAll evts newHub)) = drop (length evts - 500) evts"
proof (induction evts rule: rev_induct)
  case Nil
  show ?case by (simp add: publishAll_def newHub_def newEventRing_def)
next
  case (snoc e evts)
  then show ?case
    using buffer_push_suffix [of "eventRing (publishAll evts newHub)" evts 500 e]
    by (simp add: publishAll_snoc)
qed

text \<open>
  Claim C9. After any sequence of published events, starting from the empty buffer of
  capacity 500: the buffer holds at most 500 events; the snapshot is the last 500 events
  published (all of them when fewer were published), in arrival order, oldest first; and
  publishing one more event into a full buffer drops exactly the oldest buffered event and
  appends the new one at the end, while a buffer that is not full keeps everything.
\<close>

theorem event_ring_bound_and_order:
  "length (snapshot (publishAll evts newHub)) \<le> 500 \<and>
   snapshot (publishAll evts newHub) = drop (length evts - 500) evts \<and>
   snapshot (broadcast e (publishAll evts newHub)) =
     (if length (snapshot (publishAll evts newHub)) = 500
      then tl (snapshot (publishAll evts newHub)) @ [e]
      else snapshot (publishAll evts newHub) @ [e])"
proof -
  let ?r = "eventRing (publishAll evts newHub)"
  have ring: "maxSize ?r = 500" "buffer ?r = drop (length evts - 500) evts"
    using publishAll_ring [of evts] by simp_all
  have bound: "length (buffer ?r) \<le> 500" using ring(2) by simp
  have step: "buffer (push e ?r) =
      (if length (buffer ?r) = 500 then tl (buffer ?r) @ [e] else buffer ?r @ [e])"
    using ring(1) bound by (auto simp: push_def Let_def)
  show ?thesis using ring(2) bound step by (simp add: snapshot_def toArray_def)
qed

theorem event_ring_bound_and_order_witness:
  "snapshot (publishAll [FileAdded ''a.ts'' 1, FileChanged ''a.ts'' 2] newHub)
     = [FileAdded ''a.ts'' 1, FileChanged ''a.ts'' 2] \<and>
   snapshot (broadcast (FileDeleted ''a.ts'' 3)
       (publishAll [FileAdded ''a.ts'' 1, FileChanged ''a.ts'' 2] newHub))
     = [FileAdded ''a.ts'' 1, FileChanged ''a.ts'' 2, FileDeleted ''a.ts'' 3]"
  using event_ring_bound_and_order
    [of "[FileAdded ''a.ts'' 1, FileChanged ''a.ts'' 2]" "FileDeleted ''a.ts'' 3"]
  by simp

section \<open>Mutual exclusion of live leases\<close>

lemma mutexAt_mono: "mutexAt c rows \<Longrightarrow> c \<le> c' \<Longrightarrow> mutexAt c' rows"
  unfolding mutexAt_def by (meson less_le_trans le_less_trans)

lemma mutexAt_filter: "mutexAt c rows \<Longrightarrow> mutexAt c (filter P rows)"
  unfolding mutexAt_def by simp

lemma claims_prune [simp]:
  "claims (pruneExpiredClaims t s) = filter (\<lambda>r. \<not> expires_at r \<le> t) (claims s)"
  by (simp add: pruneExpiredClaims_def)

lemma set_insertOrReplace:
  "set (insertOrReplace row rows) =
     insert row {r \<in> set rows. \<not> (agent_id r = agent_id row \<and> file_path r = file_path row)}"
  by (auto simp: insertOrReplace_def)

lemma upsert_subset:
  "set (foldl (\<lambda>rows p. insertOrReplace (mk p) rows) rows paths) \<subseteq> set rows \<union> mk ` set paths"
proof (induction paths arbitrary: rows)
  case Nil
  show ?case by simp
next
  case (Cons p paths)
  have "set (foldl (\<lambda>rows p. insertOrReplace (mk p) rows) (insertOrReplace (mk p) rows) paths)
          \<subseteq> set (insertOrReplace (mk p) rows) \<union> mk ` set paths"
    by (rule Cons.IH)
  also have "\<dots> \<subseteq> set rows \<union> mk ` set (p # paths)"
    by (auto simp: set_insertOrReplace)
  finally show ?case by simp
qed

lemma findConflicts_Nil:
  assumes "findConflicts agent paths t s = []" and "r \<in> set (claims s)"
    and "agent_id r \<noteq> agent" and "file_path r \<in> set paths"
  shows "expires_at r \<le> t"
proof -
  have "paths \<noteq> []" using assms(4) by auto
  then have "filter (\<lambda>r. agent_id r \<noteq> agent \<and> expires_at r > t \<and> file_path r \<in> set paths)
                (claims s) = []"
    using assms(1) by (simp add: findConflicts_def)
  then show ?thesis using assms(2-4) by (auto simp: filter_empty_conv)
qed

lemma mutexAt_createClaim:
  assumes inv: "mutexAt c (claims s)" and later: "c \<le> c'" "t3 \<le> c'"
  shows "mutexAt c' (claims (snd (createClaim agent paths ttl t1 t2 t3 s)))"
proof (cases "findConflicts agent paths t3 (pruneExpiredClaims t1 s) = []")
  case False
  then have "snd (createClaim agent paths ttl t1 t2 t3 s) = pruneExpiredClaims t1 s"
    by (simp add: createClaim_def Let_def)
  then show ?thesis
    using mutexAt_filter [OF mutexAt_mono [OF inv later(1)]] by simp
next
  case True
  let ?s1 = "pruneExpiredClaims t1 s"
  let ?mk = "\<lambda>p. \<lparr>agent_id = agent, file_path = p, expires_at = t2 + max 5 ttl * 1000,
                   created_at = t2\<rparr>"
  let ?new = "foldl (\<lambda>rows p. insertOrReplace (?mk p) rows) (claims ?s1) paths"
  have res: "claims (snd (createClaim agent paths ttl t1 t2 t3 s)) = ?new"
    using True by (simp add: createClaim_def Let_def)
  have old: "mutexAt c' (claims ?s1)"
    using mutexAt_filter [OF mutexAt_mono [OF inv later(1)]] by simp
  have sub: "set ?new \<subseteq> set (claims ?s1) \<union> ?mk ` set paths"
    by (rule upsert_subset)
  have foreign: "expires_at r \<le> c'"
    if "r \<in> set (claims ?s1)" "agent_id r \<noteq> agent" "file_path r \<in> set paths" for r
    using findConflicts_Nil [OF True that] later(2) by simp
  have "agent_id r1 = agent_id r2"
    if mem: "r1 \<in> set ?new" "r2 \<in> set ?new" and same: "file_path r1 = file_path r2"
      and live: "c' < expires_at r1" "c' < expires_at r2" for r1 r2
  proof -
    consider (oo) "r1 \<in> set (claims ?s1)" "r2 \<in> set (claims ?s1)"
      | (on) "r1 \<in> set (claims ?s1)" "r2 \<in> ?mk ` set paths"
      | (no) "r1 \<in> ?mk ` set paths" "r2 \<in> set (claims ?s1)"
      | (nn) "r1 \<in> ?mk ` set paths" "r2 \<in> ?mk ` set paths"
      using mem sub by blast
    then show ?thesis
    proof cases
      case oo
      then show ?thesis using old same live unfolding mutexAt_def by blast
    next
      case on
      then have "agent_id r2 = agent" "file_path r2 \<in> set paths" by auto
      then show ?thesis using foreign [of r1] on(1) same live(1) by force
    next
      case no
      then have "agent_id r1 = agent" "file_path r1 \<in> set paths" by auto
      then show ?thesis using foreign [of r2] no(2) same live(2) by force
    next
      case nn
      then show ?thesis by auto
    qed
  qed
  then show ?thesis unfolding res mutexAt_def by blast
qed

lemma mutexAt_applyOp:
  assumes "mutexAt c (claims s)" and "c \<le> c'" and "\<forall>x \<in> set (clockReads op). x \<le> c'"
  shows "mutexAt c' (claims (applyOp op s))"
proof (cases op)
  case (CreateClaim agent paths ttl t1 t2 t3)
  then show ?thesis
    using assms mutexAt_createClaim [of c s c' t3 agent paths ttl t1 t2] by simp
next
  case (ReleaseClaims agent filesOpt)
  then show ?thesis
    using mutexAt_filter [OF mutexAt_mono [OF assms(1,2)]]
    by (simp add: releaseClaims_def Let_def)
next
  case (ListActiveClaims t)
  then show ?thesis
    using mutexAt_filter [OF mutexAt_mono [OF assms(1,2)]]
    by (simp add: listActiveClaims_def Let_def)
next
  case (Status t1 t2)
  then show ?thesis
    using mutexAt_filter [OF mutexAt_mono [OF assms(1,2)]]
    by (simp add: status_def Let_def)
qed

lemma run_Cons [simp]: "run (op # ops) s = run ops (applyOp op s)"
  by (simp add: run_def)

lemma run_Nil [simp]: "run [] s = s"
  by (simp add: run_def)

lemma clockTrace_Cons [simp]: "clockTrace (op # ops) = clockReads op @ clockTrace ops"
  by (simp add: clockTrace_def)

lemma clockTrace_Nil [simp]: "clockTrace [] = []"
  by (simp add: clockTrace_def)

lemma mutexAt_run:
  "mutexAt t (claims s) \<Longrightarrow> \<forall>x \<in> set (clockTrace ops). x \<le> t \<Longrightarrow> mutexAt t (claims (run ops s))"
proof (induction ops arbitrary: s)
  case Nil
  then show ?case by simp
next
  case (Cons op ops)
  from Cons.prems(2) have "\<forall>x \<in> set (clockReads op). x \<le> t" by simp
  from mutexAt_applyOp [OF Cons.prems(1) order_refl this]
  have "mutexAt t (claims (applyOp op s))" .
  moreover from Cons.prems(2) have "\<forall>x \<in> set (clockTrace ops). x \<le> t" by simp
  ultimately show ?case using Cons.IH by simp
qed

lemma mutexAt_empty: "claims s = [] \<Longrightarrow> mutexAt t (claims s)"
  by (simp add: mutexAt_def)

lemma remdups_le_one: "(\<forall>x\<in>set xs. \<forall>y\<in>set xs. x = y) \<Longrightarrow> length (remdups xs) \<le> 1"
proof -
  assume a: "\<forall>x\<in>set xs. \<forall>y\<in>set xs. x = y"
  have "card (set xs) \<le> 1"
  proof (cases xs)
    case Nil then show ?thesis by simp
  next
    case (Cons x ys)
    then have "set xs = {x}" using a by auto
    then show ?thesis by simp
  qed
  then show ?thesis by (simp add: length_remdups_card_conv)
qed

lemma liveHolders_mutex: "mutexAt t (claims s) \<Longrightarrow> length (liveHolders p t s) \<le> 1"
  unfolding liveHolders_def mutexAt_def
  by (rule remdups_le_one) auto

text \<open>
  Claim C1. Start from a store whose lease table is empty and apply any sequence of lease
  operations (\<^verbatim>\<open>createClaim\<close>, \<^verbatim>\<open>releaseClaims\<close>, \<^verbatim>\<open>listActiveClaims\<close>, \<^verbatim>\<open>status\<close>). The
  state reached is the state of the system at the times \<open>t\<close> that are not before any clock
  reading these operations took. At every such time and for every path \<open>p\<close>, at most one
  agent holds a lease on \<open>p\<close> that is live at \<open>t\<close> (\<^verbatim>\<open>expiresAt > t\<close>).
\<close>

theorem mutual_exclusion_from_last_reading:
  assumes "claims s0 = []" and "\<forall>c \<in> set (clockTrace ops). c \<le> t"
  shows "length (liveHolders p t (run ops s0)) \<le> 1"
proof -
  have "mutexAt t (claims (run ops s0))"
    using mutexAt_empty [OF assms(1)] assms(2) by (rule mutexAt_run)
  then show ?thesis by (rule liveHolders_mutex)
qed

theorem mutual_exclusion_from_last_reading_witness:
  "claims emptyDb = [] \<and>
   clockTrace [CreateClaim ''A'' [''x.ts''] 5 0 0 0,
               CreateClaim ''B'' [''x.ts''] 5 4999 4999 5000] = [0, 0, 0, 4999, 4999, 5000] \<and>
   length (liveHolders ''x.ts'' 5000
             (run [CreateClaim ''A'' [''x.ts''] 5 0 0 0,
                   CreateClaim ''B'' [''x.ts''] 5 4999 4999 5000] emptyDb)) \<le> 1"
proof -
  have h1: "claims emptyDb = []" by (simp add: emptyDb_def)
  have h2: "\<forall>c \<in> set (clockTrace [CreateClaim ''A'' [''x.ts''] 5 0 0 0,
                                     CreateClaim ''B'' [''x.ts''] 5 4999 4999 5000]). c \<le> 5000"
    by simp
  from mutual_exclusion_from_last_reading [OF h1 h2, of "''x.ts''"] h1
  show ?thesis by simp
qed

section \<open>All-or-nothing acquisition\<close>

text \<open>
  Claim C2. If \<^verbatim>\<open>createClaim\<close> reports a conflict, the store after the call is the store
  before it with the expired lease rows swept at the first clock reading, and nothing else:
  no row is inserted or updated, so every lease row after the call was a row before it, and
  none of the requested paths is newly leased to the caller.
\<close>

theorem all_or_nothing_acquisition:
  assumes "conflictsWith (fst (createClaim agent paths ttl t1 t2 t3 s)) \<noteq> []"
  shows "snd (createClaim agent paths ttl t1 t2 t3 s) = pruneExpiredClaims t1 s \<and>
         (\<forall>r \<in> set (claims (snd (createClaim agent paths ttl t1 t2 t3 s))).
            r \<in> set (claims s))"
proof -
  have "findConflicts agent paths t3 (pruneExpiredClaims t1 s) \<noteq> []"
    using assms by (auto simp: createClaim_def Let_def split: if_splits)
  then have "snd (createClaim agent paths ttl t1 t2 t3 s) = pruneExpiredClaims t1 s"
    by (simp add: createClaim_def Let_def)
  then show ?thesis by simp
qed

theorem all_or_nothing_acquisition_witness:
  "conflictsWith (fst (createClaim ''B'' [''x.ts'', ''y.ts''] 900 10 10 10
      (run [CreateClaim ''A'' [''x.ts''] 900 0 0 0] emptyDb))) = [''A''] \<and>
   claims (snd (createClaim ''B'' [''x.ts'', ''y.ts''] 900 10 10 10
      (run [CreateClaim ''A'' [''x.ts''] 900 0 0 0] emptyDb)))
     = [\<lparr>agent_id = ''A'', file_path = ''x.ts'', expires_at = 900000, created_at = 0\<rparr>]"
proof -
  have c: "conflictsWith (fst (createClaim ''B'' [''x.ts'', ''y.ts''] 900 10 10 10
      (run [CreateClaim ''A'' [''x.ts''] 900 0 0 0] emptyDb))) = [''A'']"
    by (simp add: emptyDb_def createClaim_def findConflicts_def insertOrReplace_def Let_def)
  then have "conflictsWith (fst (createClaim ''B'' [''x.ts'', ''y.ts''] 900 10 10 10
      (run [CreateClaim ''A'' [''x.ts''] 900 0 0 0] emptyDb))) \<noteq> []" by simp
  from all_or_nothing_acquisition [OF this] c show ?thesis
    by (simp add: emptyDb_def createClaim_def findConflicts_def insertOrReplace_def Let_def)
qed

section \<open>The lazy sweep\<close>

lemma prune_idem: "pruneExpiredClaims t (pruneExpiredClaims t s) = pruneExpiredClaims t s"
  by (simp add: pruneExpiredClaims_def)

lemma createClaim_sweeps_first:
  "createClaim agent paths ttl t1 t2 t3 s =
     createClaim agent paths ttl t1 t2 t3 (pruneExpiredClaims t1 s)"
  by (simp add: createClaim_def prune_idem)

lemma createClaim_leaves_no_stale_row:
  assumes "r \<in> set (claims (snd (createClaim agent paths ttl t1 t2 t3 s)))" and "t1 \<le> t2"
  shows "t1 < expires_at r"
proof (cases "findConflicts agent paths t3 (pruneExpiredClaims t1 s) = []")
  case False
  then have "snd (createClaim agent paths ttl t1 t2 t3 s) = pruneExpiredClaims t1 s"
    by (simp add: createClaim_def Let_def)
  then show ?thesis using assms(1) by simp
next
  case True
  let ?mk = "\<lambda>p. \<lparr>agent_id = agent, file_path = p, expires_at = t2 + max 5 ttl * 1000,
                   created_at = t2\<rparr>"
  have "claims (snd (createClaim agent paths ttl t1 t2 t3 s)) =
        foldl (\<lambda>rows p. insertOrReplace (?mk p) rows) (claims (pruneExpiredClaims t1 s)) paths"
    using True by (simp add: createClaim_def Let_def)
  then have "r \<in> set (claims (pruneExpiredClaims t1 s)) \<union> ?mk ` set paths"
    using assms(1) upsert_subset [of ?mk "claims (pruneExpiredClaims t1 s)" paths] by auto
  then show ?thesis using assms(2) by auto
qed

lemma releaseClaims_exact:
  "releaseClaims agent filesOpt s =
     (length (filter (\<lambda>r. agent_id r = agent \<and>
                           (case filesOpt of None \<Rightarrow> True
                            | Some paths \<Rightarrow> paths = [] \<or> file_path r \<in> set paths)) (claims s)),
      s\<lparr>claims := filter (\<lambda>r. \<not> (agent_id r = agent \<and>
                           (case filesOpt of None \<Rightarrow> True
                            | Some paths \<Rightarrow> paths = [] \<or> file_path r \<in> set paths))) (claims s)\<rparr>)"
proof (cases filesOpt)
  case None
  then show ?thesis by (simp add: releaseClaims_def Let_def)
next
  case (Some paths)
  then show ?thesis by (cases "paths = []") (simp_all add: releaseClaims_def Let_def)
qed

text \<open>
  Claim C4, as the code has it. \<^verbatim>\<open>createClaim\<close>, \<^verbatim>\<open>listActiveClaims\<close> and \<^verbatim>\<open>status\<close> begin
  with the sweep: each gives the same result and the same store on \<open>s\<close> as on \<open>s\<close> swept at
  its first clock reading; after \<^verbatim>\<open>listActiveClaims\<close> and \<^verbatim>\<open>status\<close> the store is the swept
  store, \<^verbatim>\<open>status\<close> counts the rows that outlive the sweep, and after \<^verbatim>\<open>createClaim\<close> no row
  with \<^verbatim>\<open>expires_at <= t1\<close> is left (the clock not running backwards between the sweep and the
  reading of \<^verbatim>\<open>createdAt\<close>). \<^verbatim>\<open>releaseClaims\<close> reads no clock and sweeps nothing: it deletes
  exactly the rows of the calling agent (those on the given files when a non-empty list of
  files is given, all of them otherwise), returns their number, and leaves every other row
  of the table, expired or not, and every other table as it was.
\<close>

theorem sweep_before_lease_reads:
  "createClaim agent paths ttl t1 t2 t3 s =
     createClaim agent paths ttl t1 t2 t3 (pruneExpiredClaims t1 s) \<and>
   (t1 \<le> t2 \<longrightarrow>
      (\<forall>r \<in> set (claims (snd (createClaim agent paths ttl t1 t2 t3 s))). t1 < expires_at r)) \<and>
   listActiveClaims t s = listActiveClaims t (pruneExpiredClaims t s) \<and>
   snd (listActiveClaims t s) = pruneExpiredClaims t s \<and>
   status t1 t2 s = status t1 t2 (pruneExpiredClaims t1 s) \<and>
   snd (status t1 t2 s) = pruneExpiredClaims t1 s \<and>
   claimCount (fst (status t1 t2 s)) = length (filter (\<lambda>r. t1 < expires_at r) (claims s)) \<and>
   releaseClaims agent filesOpt s =
     (length (filter (\<lambda>r. agent_id r = agent \<and>
                           (case filesOpt of None \<Rightarrow> True
                            | Some paths \<Rightarrow> paths = [] \<or> file_path r \<in> set paths)) (claims s)),
      s\<lparr>claims := filter (\<lambda>r. \<not> (agent_id r = agent \<and>
                           (case filesOpt of None \<Rightarrow> True
                            | Some paths \<Rightarrow> paths = [] \<or> file_path r \<in> set paths))) (claims s)\<rparr>)"
proof -
  have a: "t1 \<le> t2 \<longrightarrow>
      (\<forall>r \<in> set (claims (snd (createClaim agent paths ttl t1 t2 t3 s))). t1 < expires_at r)"
    using createClaim_leaves_no_stale_row [of _ agent paths ttl t1 t2 t3 s] by blast
  have b: "listActiveClaims t s = listActiveClaims t (pruneExpiredClaims t s)"
    by (simp add: listActiveClaims_def prune_idem)
  have c: "status t1 t2 s = status t1 t2 (pruneExpiredClaims t1 s)"
    by (simp add: status_def prune_idem)
  have d: "claimCount (fst (status t1 t2 s)) = length (filter (\<lambda>r. t1 < expires_at r) (claims s))"
    by (simp add: status_def Let_def not_le)
  have f: "snd (listActiveClaims t s) = pruneExpiredClaims t s"
    by (simp add: listActiveClaims_def Let_def)
  have g: "snd (status t1 t2 s) = pruneExpiredClaims t1 s"
    by (simp add: status_def Let_def)
  from createClaim_sweeps_first [of agent paths ttl t1 t2 t3 s] a b f c g d
    releaseClaims_exact [of agent filesOpt s]
  show ?thesis by (intro conjI)
qed

theorem sweep_before_lease_reads_witness:
  "(6000::int) \<le> 6000 \<and>
   createClaim ''B'' [''x.ts''] 5 6000 6000 6000
     (run [CreateClaim ''A'' [''x.ts''] 5 0 0 0] emptyDb) =
   createClaim ''B'' [''x.ts''] 5 6000 6000 6000
     (pruneExpiredClaims 6000 (run [CreateClaim ''A'' [''x.ts''] 5 0 0 0] emptyDb)) \<and>
   claims (snd (createClaim ''B'' [''x.ts''] 5 6000 6000 6000
                  (run [CreateClaim ''A'' [''x.ts''] 5 0 0 0] emptyDb))) =
     [\<lparr>agent_id = ''B'', file_path = ''x.ts'', expires_at = 11000, created_at = 6000\<rparr>] \<and>
   releaseClaims ''A'' (Some [''x.ts''])
     (run [CreateClaim ''A'' [''x.ts'', ''y.ts''] 5 0 0 0, CreateClaim ''B'' [''z.ts''] 5 1 1 1]
        emptyDb) =
     (1, emptyDb\<lparr>claims :=
           [\<lparr>agent_id = ''A'', file_path = ''y.ts'', expires_at = 5000, created_at = 0\<rparr>,
            \<lparr>agent_id = ''B'', file_path = ''z.ts'', expires_at = 5001, created_at = 1\<rparr>]\<rparr>)"
proof -
  have eval: "claims (snd (createClaim ''B'' [''x.ts''] 5 6000 6000 6000
                  (run [CreateClaim ''A'' [''x.ts''] 5 0 0 0] emptyDb))) =
     [\<lparr>agent_id = ''B'', file_path = ''x.ts'', expires_at = 11000, created_at = 6000\<rparr>]"
    by (simp add: emptyDb_def createClaim_def findConflicts_def insertOrReplace_def Let_def)
  have tbl: "run [CreateClaim ''A'' [''x.ts'', ''y.ts''] 5 0 0 0, CreateClaim ''B'' [''z.ts''] 5 1 1 1]
        emptyDb =
     emptyDb\<lparr>claims :=
       [\<lparr>agent_id = ''A'', file_path = ''x.ts'', expires_at = 5000, created_at = 0\<rparr>,
        \<lparr>agent_id = ''A'', file_path = ''y.ts'', expires_at = 5000, created_at = 0\<rparr>,
        \<lparr>agent_id = ''B'', file_path = ''z.ts'', expires_at = 5001, created_at = 1\<rparr>]\<rparr>"
    by (simp add: emptyDb_def createClaim_def findConflicts_def insertOrReplace_def
        pruneExpiredClaims_def Let_def)
  have c1: "createClaim ''B'' [''x.ts''] 5 6000 6000 6000
     (run [CreateClaim ''A'' [''x.ts''] 5 0 0 0] emptyDb) =
   createClaim ''B'' [''x.ts''] 5 6000 6000 6000
     (pruneExpiredClaims 6000 (run [CreateClaim ''A'' [''x.ts''] 5 0 0 0] emptyDb))"
    using sweep_before_lease_reads [of "''B''" "[''x.ts'']" 5 6000 6000 6000
      "run [CreateClaim ''A'' [''x.ts''] 5 0 0 0] emptyDb"] by (rule conjunct1)
  have c2: "releaseClaims ''A'' (Some [''x.ts''])
     (run [CreateClaim ''A'' [''x.ts'', ''y.ts''] 5 0 0 0, CreateClaim ''B'' [''z.ts''] 5 1 1 1]
        emptyDb) =
     (1, emptyDb\<lparr>claims :=
           [\<lparr>agent_id = ''A'', file_path = ''y.ts'', expires_at = 5000, created_at = 0\<rparr>,
            \<lparr>agent_id = ''B'', file_path = ''z.ts'', expires_at = 5001, created_at = 1\<rparr>]\<rparr>)"
    using sweep_before_lease_reads [of "''A''" "[]" 5 0 0 0
      "run [CreateClaim ''A'' [''x.ts'', ''y.ts''] 5 0 0 0, CreateClaim ''B'' [''z.ts''] 5 1 1 1]
         emptyDb" 0 "Some [''x.ts'']"]
    unfolding tbl by (simp add: emptyDb_def)
  show ?thesis by (intro conjI) (simp, rule c1, rule eval, rule c2)
qed

text \<open>
  Claim C4, as stated, counts \<^verbatim>\<open>releaseClaims\<close> among the operations that begin with the
  sweep. It does not: agent A holds a 5-second lease taken at clock 0
  (\<^verbatim>\<open>expires_at = 5000\<close>); a release by B leaves that row in the table at whatever time it is
  called, where a sweep at clock 6000 would have deleted it; and a release by A itself
  reports one released row for the lease that had expired.
\<close>

theorem release_without_sweep_counterexample:
  "claims (snd (releaseClaims ''B'' None
      (run [CreateClaim ''A'' [''x.ts''] 5 0 0 0] emptyDb)))
     = [\<lparr>agent_id = ''A'', file_path = ''x.ts'', expires_at = 5000, created_at = 0\<rparr>] \<and>
   claims (pruneExpiredClaims 6000 (run [CreateClaim ''A'' [''x.ts''] 5 0 0 0] emptyDb)) = [] \<and>
   fst (releaseClaims ''A'' None (run [CreateClaim ''A'' [''x.ts''] 5 0 0 0] emptyDb)) = 1"
  by (simp add: emptyDb_def createClaim_def findConflicts_def insertOrReplace_def
      releaseClaims_def Let_def)

section \<open>Self-renewal\<close>

lemma mutexAtD:
  "mutexAt c rows \<Longrightarrow> r1 \<in> set rows \<Longrightarrow> r2 \<in> set rows \<Longrightarrow> file_path r1 = file_path r2 \<Longrightarrow>
   c < expires_at r1 \<Longrightarrow> c < expires_at r2 \<Longrightarrow> agent_id r1 = agent_id r2"
  unfolding mutexAt_def by blast

text \<open>
  Claim C5. Take a state reached from the empty lease table by lease operations, and a call
  \<^verbatim>\<open>createClaim(a, [p], ttl)\<close> that starts not before any clock reading taken so far. If
  agent \<open>a\<close> holds a lease on \<open>p\<close> that is live when the call starts (\<^verbatim>\<open>expires_at > t1\<close>),
  then the call returns no conflict, and the claim it returns and the one row of \<open>a\<close> on
  \<open>p\<close> after the call carry \<^verbatim>\<open>createdAt = t2\<close>, the clock reading of the call, and
  \<^verbatim>\<open>expiresAt = createdAt + max(5, ttl) * 1000\<close>.
\<close>

theorem self_renewal:
  assumes "claims s0 = []" and "\<forall>c \<in> set (clockTrace ops). c \<le> t1"
    and "r \<in> set (claims (run ops s0))"
    and "agent_id r = a" and "file_path r = p" and "t1 < expires_at r"
  shows "conflictsWith (fst (createClaim a [p] ttl t1 t2 t3 (run ops s0))) = [] \<and>
         claim (fst (createClaim a [p] ttl t1 t2 t3 (run ops s0))) =
           \<lparr>agentId = a, files = [p], expiresAt = t2 + max 5 ttl * 1000, createdAt = t2\<rparr> \<and>
         filter (\<lambda>r. agent_id r = a \<and> file_path r = p)
                (claims (snd (createClaim a [p] ttl t1 t2 t3 (run ops s0)))) =
           [\<lparr>agent_id = a, file_path = p, expires_at = t2 + max 5 ttl * 1000, created_at = t2\<rparr>]"
proof -
  let ?s = "run ops s0"
  have inv: "mutexAt t1 (claims ?s)"
    using mutexAt_empty [OF assms(1)] assms(2) by (rule mutexAt_run)
  have none: "filter (\<lambda>r. agent_id r \<noteq> a \<and> expires_at r > t3 \<and> file_path r \<in> set [p])
                 (claims (pruneExpiredClaims t1 ?s)) = []"
  proof -
    have False if "r' \<in> set (claims ?s)" "agent_id r' \<noteq> a" "t1 < expires_at r'"
      "file_path r' = p" for r'
    proof -
      have "agent_id r' = agent_id r"
        using mutexAtD [OF inv that(1) assms(3)] that(3,4) assms(5,6) by simp
      then show False using that(2) assms(4) by simp
    qed
    then show ?thesis unfolding filter_empty_conv by fastforce
  qed
  then have nc: "findConflicts a [p] t3 (pruneExpiredClaims t1 ?s) = []"
    by (simp add: findConflicts_def)
  let ?row = "\<lparr>agent_id = a, file_path = p, expires_at = t2 + max 5 ttl * 1000, created_at = t2\<rparr>"
  have res: "createClaim a [p] ttl t1 t2 t3 ?s =
      (\<lparr>claim = \<lparr>agentId = a, files = [p], expiresAt = t2 + max 5 ttl * 1000, createdAt = t2\<rparr>,
        conflictsWith = []\<rparr>,
       (pruneExpiredClaims t1 ?s)\<lparr>claims := insertOrReplace ?row (claims (pruneExpiredClaims t1 ?s))\<rparr>)"
    unfolding createClaim_def Let_def nc by simp
  have "filter (\<lambda>r. agent_id r = a \<and> file_path r = p) (insertOrReplace ?row rows) = [?row]" for rows
    by (simp add: insertOrReplace_def)
  then show ?thesis unfolding res by simp
qed

theorem self_renewal_witness:
  "conflictsWith (fst (createClaim ''A'' [''x.ts''] 3 1000 1000 1000
      (run [CreateClaim ''A'' [''x.ts''] 900 0 0 0] emptyDb))) = [] \<and>
   filter (\<lambda>r. agent_id r = ''A'' \<and> file_path r = ''x.ts'')
      (claims (snd (createClaim ''A'' [''x.ts''] 3 1000 1000 1000
         (run [CreateClaim ''A'' [''x.ts''] 900 0 0 0] emptyDb)))) =
     [\<lparr>agent_id = ''A'', file_path = ''x.ts'', expires_at = 6000, created_at = 1000\<rparr>]"
proof -
  let ?r = "\<lparr>agent_id = ''A'', file_path = ''x.ts'', expires_at = 900000, created_at = 0\<rparr>"
  have h1: "claims emptyDb = []" by (simp add: emptyDb_def)
  have h2: "\<forall>c \<in> set (clockTrace [CreateClaim ''A'' [''x.ts''] 900 0 0 0]). c \<le> 1000"
    by simp
  have h3: "?r \<in> set (claims (run [CreateClaim ''A'' [''x.ts''] 900 0 0 0] emptyDb))"
    by (simp add: emptyDb_def createClaim_def findConflicts_def insertOrReplace_def Let_def)
  have h4: "agent_id ?r = ''A''" and h5: "file_path ?r = ''x.ts''"
    and h6: "1000 < expires_at ?r" by simp_all
  from self_renewal [OF h1 h2 h3 h4 h5 h6, of 3 1000 1000] show ?thesis by simp
qed

section \<open>Evidence output truncation\<close>

lemma decimal_MAX: "decimal MAX_OUTPUT_CHARS = ''20000''"
  by (simp add: MAX_OUTPUT_CHARS_def decimal.simps digit_def)

lemma clipOutput_eq:
  "clipOutput output =
     (if length output \<le> 20000 then output
      else take 20000 output @ [CHR 0x0A] @ ''[clipped to 20000 chars]'')"
  unfolding clipOutput_def decimal_MAX by (simp add: MAX_OUTPUT_CHARS_def)

text \<open>
  Claim C6. Every \<^verbatim>\<open>attachEvidence\<close> call that stores evidence (the task exists and the fresh
  identifier is unused) stores the output character for character when it has at most 20000
  characters, and otherwise stores its first 20000 characters followed by a newline and the
  marker \<^verbatim>\<open>[clipped to 20000 chars]\<close>. The cap is the constant \<^verbatim>\<open>MAX_OUTPUT_CHARS\<close>; no
  argument of the call changes it.
\<close>

theorem evidence_output_truncation:
  assumes "getTask taskId s = Some task" and "newId \<notin> set (map evidence_id (evidence s))"
  shows "attachEvidence taskId agent command output newId t s =
     (let ev = \<lparr>evidence_id = newId, evidence_taskId = taskId, evidence_agentId = agent,
                evidence_command = command,
                evidence_output =
                  (if length output \<le> 20000 then output
                   else take 20000 output @ [CHR 0x0A] @ ''[clipped to 20000 chars]''),
                evidence_createdAt = t\<rparr>
      in Inr (ev, s\<lparr>evidence := evidence s @ [ev]\<rparr>))"
  using assms unfolding attachEvidence_def clipOutput_eq by (simp add: Let_def)

theorem evidence_output_truncation_witness:
  "attachEvidence ''task-1'' ''A'' ''npm test'' ''All tests passed'' ''ev-1'' 7 exampleDb =
     Inr (\<lparr>evidence_id = ''ev-1'', evidence_taskId = ''task-1'', evidence_agentId = ''A'',
            evidence_command = ''npm test'', evidence_output = ''All tests passed'',
            evidence_createdAt = 7\<rparr>,
          exampleDb\<lparr>evidence :=
            [\<lparr>evidence_id = ''ev-1'', evidence_taskId = ''task-1'', evidence_agentId = ''A'',
              evidence_command = ''npm test'', evidence_output = ''All tests passed'',
              evidence_createdAt = 7\<rparr>]\<rparr>) \<and>
   map evidence_output (evidence (snd (projr
      (attachEvidence ''task-1'' ''A'' ''cat bigfile'' (replicate 25000 CHR ''x'') ''ev-2'' 8
         exampleDb)))) =
     [replicate 20000 CHR ''x'' @ [CHR 0x0A] @ ''[clipped to 20000 chars]'']"
proof -
  have h1: "getTask ''task-1'' exampleDb =
      Some \<lparr>task_id = ''task-1'', task_title = ''Fix the router'', task_description = None,
            task_createdAt = 0\<rparr>"
    by (simp add: getTask_def exampleDb_def)
  have h2: "''ev-1'' \<notin> set (map evidence_id (evidence exampleDb))"
    and h3: "''ev-2'' \<notin> set (map evidence_id (evidence exampleDb))"
    by (simp_all add: exampleDb_def)
  have ev: "evidence exampleDb = []" by (simp add: exampleDb_def)
  from evidence_output_truncation [OF h1 h2, of "''A''" "''npm test''" "''All tests passed''" 7]
       evidence_output_truncation [OF h1 h3, of "''A''" "''cat bigfile''" "replicate 25000 CHR ''x''" 8]
  show ?thesis by (simp add: Let_def ev)
qed

section \<open>The aggregate claims of \<^verbatim>\<open>listActiveClaims\<close>\<close>

lemma groupRows_snoc: "groupRows (xs @ [r]) = groupRow r (groupRows xs)"
  by (simp add: groupRows_def)

lemma keys_groupRow:
  "map fst (groupRow r G) =
     (if agent_id r \<in> fst ` set G then map fst G else map fst G @ [agent_id r])"
proof -
  have fst_upd: "map fst (map (\<lambda>(a, entry). if a = k then (a, f entry) else (a, entry)) H) = map fst H"
    for k f and H :: "(string \<times> Entry) list"
    by (induction H) auto
  show ?thesis
  proof (cases "map_of G (agent_id r)")
    case None
    then have "agent_id r \<notin> fst ` set G" by (simp add: map_of_eq_None_iff)
    then show ?thesis using None by (simp add: groupRow_def Let_def fst_upd del: map_map)
  next
    case (Some e)
    then have "agent_id r \<in> fst ` set G" by (metis map_of_eq_None_iff option.distinct(1))
    then show ?thesis using Some by (simp add: groupRow_def Let_def fst_upd del: map_map)
  qed
qed

lemma keys_groupRows:
  "distinct (map fst (groupRows xs)) \<and> set (map fst (groupRows xs)) = agent_id ` set xs"
proof (induction xs rule: rev_induct)
  case Nil
  show ?case by (simp add: groupRows_def)
next
  case (snoc r xs)
  then show ?case by (auto simp: groupRows_snoc keys_groupRow)
qed

lemma mem_groupRow:
  assumes "(a, e) \<in> set (groupRow r G)"
  shows "(a \<noteq> agent_id r \<and> (a, e) \<in> set G) \<or>
         (a = agent_id r \<and>
          (\<exists>e0. ((a, e0) \<in> set G \<or>
                 (agent_id r \<notin> fst ` set G \<and>
                  e0 = \<lparr>e_files = [], e_expiresAt = expires_at r, e_createdAt = created_at r\<rparr>)) \<and>
                e = \<lparr>e_files = e_files e0 @ [file_path r],
                     e_expiresAt = max (e_expiresAt e0) (expires_at r),
                     e_createdAt = min (e_createdAt e0) (created_at r)\<rparr>))"
proof (cases "map_of G (agent_id r)")
  case None
  then have "agent_id r \<notin> fst ` set G" by (simp add: map_of_eq_None_iff)
  then show ?thesis using assms None
    by (auto simp: groupRow_def Let_def split: if_splits)
next
  case (Some e1)
  then show ?thesis using assms
    by (auto simp: groupRow_def Let_def split: if_splits)
qed

lemma entries_groupRows:
  assumes "(a, e) \<in> set (groupRows xs)"
  shows "e_files e = map file_path (filter (\<lambda>r. agent_id r = a) xs) \<and>
         e_expiresAt e = Max (expires_at ` {r \<in> set xs. agent_id r = a}) \<and>
         e_createdAt e = Min (created_at ` {r \<in> set xs. agent_id r = a})"
  using assms
proof (induction xs arbitrary: a e rule: rev_induct)
  case Nil
  then show ?case by (simp add: groupRows_def)
next
  case (snoc r xs)
  let ?G = "groupRows xs"
  let ?S = "\<lambda>ys. {r \<in> set ys. agent_id r = a}"
  from snoc.prems have mem: "(a, e) \<in> set (groupRow r ?G)" by (simp add: groupRows_snoc)
  from mem_groupRow [OF mem] consider
      (other) "a \<noteq> agent_id r" "(a, e) \<in> set ?G"
    | (seen) e0 where "a = agent_id r" "(a, e0) \<in> set ?G"
        "e = \<lparr>e_files = e_files e0 @ [file_path r],
              e_expiresAt = max (e_expiresAt e0) (expires_at r),
              e_createdAt = min (e_createdAt e0) (created_at r)\<rparr>"
    | (fresh) "a = agent_id r" "agent_id r \<notin> fst ` set ?G"
        "e = \<lparr>e_files = [file_path r],
              e_expiresAt = max (expires_at r) (expires_at r),
              e_createdAt = min (created_at r) (created_at r)\<rparr>"
    by auto
  then show ?case
  proof cases
    case other
    then have "?S (xs @ [r]) = ?S xs" by auto
    then show ?thesis using snoc.IH [OF other(2)] other(1) by simp
  next
    case seen
    have S: "?S (xs @ [r]) = insert r (?S xs)" using seen(1) by auto
    have "a \<in> agent_id ` set xs" using seen(2) keys_groupRows [of xs] by force
    then have ne: "?S xs \<noteq> {}" by auto
    have fin: "finite (?S xs)" by simp
    from snoc.IH [OF seen(2)] have
      f: "e_files e0 = map file_path (filter (\<lambda>r. agent_id r = a) xs)" and
      x: "e_expiresAt e0 = Max (expires_at ` ?S xs)" and
      c: "e_createdAt e0 = Min (created_at ` ?S xs)" by simp_all
    have "Max (expires_at ` ?S (xs @ [r])) = max (expires_at r) (Max (expires_at ` ?S xs))"
      unfolding S using ne fin by (simp add: Max_insert)
    moreover have "Min (created_at ` ?S (xs @ [r])) = min (created_at r) (Min (created_at ` ?S xs))"
      unfolding S using ne fin by (simp add: Min_insert)
    ultimately show ?thesis using seen(1,3) f x c by (simp add: max.commute min.commute)
  next
    case fresh
    have "a \<notin> agent_id ` set xs" using fresh(1,2) keys_groupRows [of xs] by simp
    then have none: "filter (\<lambda>r. agent_id r = a) xs = []" by (auto simp: filter_empty_conv)
    then have "?S xs = {}" using \<open>a \<notin> agent_id ` set xs\<close> by auto
    then have S: "?S (xs @ [r]) = {r}" using fresh(1) by auto
    show ?thesis unfolding S using fresh(1,3) none by simp
  qed
qed

text \<open>
  Claim C8. The lease rows that remain at the clock reading \<open>t\<close> of \<^verbatim>\<open>listActiveClaims\<close> are
  the rows of the table with \<^verbatim>\<open>expires_at > t\<close>. \<^verbatim>\<open>listActiveClaims\<close> returns one aggregate
  claim for each agent that has such a row, and no other: the agent ids of the result are
  distinct and are exactly the agents of the remaining rows. The files of an agent's claim
  are the paths of its remaining rows, one entry for each row; its \<^verbatim>\<open>expiresAt\<close> is the
  maximum \<^verbatim>\<open>expires_at\<close> and its \<^verbatim>\<open>createdAt\<close> the minimum \<^verbatim>\<open>created_at\<close> of those rows.
  An expired row contributes nothing.
\<close>

theorem aggregate_claim_shape:
  "distinct (map agentId (fst (listActiveClaims t s))) \<and>
   set (map agentId (fst (listActiveClaims t s))) =
     agent_id ` set (filter (\<lambda>r. t < expires_at r) (claims s)) \<and>
   (\<forall>c \<in> set (fst (listActiveClaims t s)).
      set (files c) =
        file_path ` {r \<in> set (filter (\<lambda>r. t < expires_at r) (claims s)). agent_id r = agentId c} \<and>
      length (files c) =
        length (filter (\<lambda>r. agent_id r = agentId c)
                  (filter (\<lambda>r. t < expires_at r) (claims s))) \<and>
      expiresAt c =
        Max (expires_at `
              {r \<in> set (filter (\<lambda>r. t < expires_at r) (claims s)). agent_id r = agentId c}) \<and>
      createdAt c =
        Min (created_at `
              {r \<in> set (filter (\<lambda>r. t < expires_at r) (claims s)). agent_id r = agentId c}))"
proof -
  let ?s1 = "pruneExpiredClaims t s"
  let ?live = "filter (\<lambda>r. t < expires_at r) (claims s)"
  let ?rows = "selectClaimsNewestFirst ?s1"
  let ?G = "groupRows ?rows"
  let ?mk = "\<lambda>(a, v). \<lparr>agentId = a, files = e_files v, expiresAt = e_expiresAt v,
                       createdAt = e_createdAt v\<rparr>"
  have res: "fst (listActiveClaims t s) = map ?mk ?G"
    by (simp add: listActiveClaims_def Let_def)
  have swept: "claims ?s1 = ?live"
    by (simp add: pruneExpiredClaims_def not_le)
  have rows_set: "set ?rows = set ?live"
    unfolding selectClaimsNewestFirst_def swept by simp
  have rows_len: "length (filter P ?rows) = length (filter P ?live)" for P
    unfolding selectClaimsNewestFirst_def swept by (simp add: filter_sort)
  have ids: "map agentId (map ?mk ?G) = map fst ?G"
    by (induction ?G) auto
  have k1: "distinct (map agentId (map ?mk ?G))"
    unfolding ids using keys_groupRows [of ?rows] by simp
  have k2: "set (map agentId (map ?mk ?G)) = agent_id ` set ?live"
    unfolding ids using keys_groupRows [of ?rows] rows_set by simp
  have each: "set (files c) = file_path ` {r \<in> set ?live. agent_id r = agentId c} \<and>
      length (files c) = length (filter (\<lambda>r. agent_id r = agentId c) ?live) \<and>
      expiresAt c = Max (expires_at ` {r \<in> set ?live. agent_id r = agentId c}) \<and>
      createdAt c = Min (created_at ` {r \<in> set ?live. agent_id r = agentId c})"
    if "c \<in> set (map ?mk ?G)" for c
  proof -
    from that obtain a v where av: "(a, v) \<in> set ?G" and c: "c = ?mk (a, v)" by auto
    from entries_groupRows [OF av] have
      f: "e_files v = map file_path (filter (\<lambda>r. agent_id r = a) ?rows)" and
      x: "e_expiresAt v = Max (expires_at ` {r \<in> set ?rows. agent_id r = a})" and
      m: "e_createdAt v = Min (created_at ` {r \<in> set ?rows. agent_id r = a})" by simp_all
    have "set (e_files v) = file_path ` {r \<in> set ?live. agent_id r = a}"
      unfolding f using rows_set by auto
    moreover have "length (e_files v) = length (filter (\<lambda>r. agent_id r = a) ?live)"
      unfolding f using rows_len [of "\<lambda>r. agent_id r = a"] by simp
    ultimately show ?thesis using x m c unfolding rows_set by simp
  qed
  show ?thesis unfolding res using k1 k2 each by blast
qed

text \<open>A lease of A on \<^verbatim>\<open>x.ts\<close> that expires at 5000 and one on \<^verbatim>\<open>y.ts\<close> that expires at 6000,
  listed at clock 5500: only \<^verbatim>\<open>y.ts\<close> is listed, with the times of its own row.\<close>

theorem aggregate_claim_shape_witness:
  "claims (run [CreateClaim ''A'' [''x.ts''] 5 0 0 0, CreateClaim ''A'' [''y.ts''] 5 1000 1000 1000,
                CreateClaim ''B'' [''z.ts''] 60 1001 1001 1001] emptyDb) =
     [\<lparr>agent_id = ''A'', file_path = ''x.ts'', expires_at = 5000, created_at = 0\<rparr>,
      \<lparr>agent_id = ''A'', file_path = ''y.ts'', expires_at = 6000, created_at = 1000\<rparr>,
      \<lparr>agent_id = ''B'', file_path = ''z.ts'', expires_at = 61001, created_at = 1001\<rparr>] \<and>
   fst (listActiveClaims 5500
      (run [CreateClaim ''A'' [''x.ts''] 5 0 0 0, CreateClaim ''A'' [''y.ts''] 5 1000 1000 1000,
            CreateClaim ''B'' [''z.ts''] 60 1001 1001 1001] emptyDb)) =
     [\<lparr>agentId = ''B'', files = [''z.ts''], expiresAt = 61001, createdAt = 1001\<rparr>,
      \<lparr>agentId = ''A'', files = [''y.ts''], expiresAt = 6000, createdAt = 1000\<rparr>] \<and>
   set (map agentId (fst (listActiveClaims 5500
      (run [CreateClaim ''A'' [''x.ts''] 5 0 0 0, CreateClaim ''A'' [''y.ts''] 5 1000 1000 1000,
            CreateClaim ''B'' [''z.ts''] 60 1001 1001 1001] emptyDb)))) =
     agent_id ` set (filter (\<lambda>r. 5500 < expires_at r)
       (claims (run [CreateClaim ''A'' [''x.ts''] 5 0 0 0,
                     CreateClaim ''A'' [''y.ts''] 5 1000 1000 1000,
                     CreateClaim ''B'' [''z.ts''] 60 1001 1001 1001] emptyDb)))"
proof -
  let ?s = "run [CreateClaim ''A'' [''x.ts''] 5 0 0 0, CreateClaim ''A'' [''y.ts''] 5 1000 1000 1000,
                 CreateClaim ''B'' [''z.ts''] 60 1001 1001 1001] emptyDb"
  have e0: "claims ?s =
     [\<lparr>agent_id = ''A'', file_path = ''x.ts'', expires_at = 5000, created_at = 0\<rparr>,
      \<lparr>agent_id = ''A'', file_path = ''y.ts'', expires_at = 6000, created_at = 1000\<rparr>,
      \<lparr>agent_id = ''B'', file_path = ''z.ts'', expires_at = 61001, created_at = 1001\<rparr>]"
    by (simp add: emptyDb_def createClaim_def findConflicts_def insertOrReplace_def Let_def)
  have e1: "fst (listActiveClaims 5500 ?s) =
     [\<lparr>agentId = ''B'', files = [''z.ts''], expiresAt = 61001, createdAt = 1001\<rparr>,
      \<lparr>agentId = ''A'', files = [''y.ts''], expiresAt = 6000, createdAt = 1000\<rparr>]"
    by (simp add: emptyDb_def createClaim_def findConflicts_def insertOrReplace_def
        listActiveClaims_def selectClaimsNewestFirst_def groupRows_def groupRow_def Let_def)
  from aggregate_claim_shape [of 5500 ?s]
  have e2: "set (map agentId (fst (listActiveClaims 5500 ?s))) =
     agent_id ` set (filter (\<lambda>r. 5500 < expires_at r) (claims ?s))"
    by blast
  show ?thesis by (intro conjI) (rule e0, rule e1, rule e2)
qed

section \<open>The workflow guard in the tool handlers\<close>

lemma missingFiles_eq:
  "missingFiles (hasIntentForFiles agent paths s) =
     filter (\<lambda>f. \<not> (\<exists>i \<in> set (intents s). intent_agentId i = agent \<and> f \<in> set (intent_files i)))
            paths"
  by (auto simp: hasIntentForFiles_def Let_def intro!: filter_cong)

lemma hasIntent_eq:
  "hasIntent (hasIntentForFiles agent paths s) =
     (\<forall>f \<in> set paths. \<exists>i \<in> set (intents s). intent_agentId i = agent \<and> f \<in> set (intent_files i))"
  by (auto simp: hasIntentForFiles_def Let_def filter_empty_conv)

lemma hall_claim_no_intent:
  assumes "ClaimCreateInput_parse args = Inr args"
    and "\<not> hasIntent (hasIntentForFiles (cc_agentId args) (cc_files args) s)"
  shows "hall_claim args t1 t2 t3 s =
     (\<lparr>content = ClaimRejection ''rejected'' ''NO_INTENT''
          (''You must post an intent (hall_intent_post) before claiming files. Missing intent for: ''
             @ join '', '' (missingFiles (hasIntentForFiles (cc_agentId args) (cc_files args) s)))
          (missingFiles (hasIntentForFiles (cc_agentId args) (cc_files args) s)),
       isError = Some True\<rparr>, s)"
  using assms by (simp add: hall_claim_def Let_def)

lemma getAgentClaims_eq:
  "getAgentClaims agent t s =
     (map file_path (filter (\<lambda>r. agent_id r = agent \<and> t < expires_at r) (claims s)),
      pruneExpiredClaims t s)"
  by (simp add: getAgentClaims_def Let_def pruneExpiredClaims_def not_le conj_commute)

lemma hasEvidence_eq:
  "hasEvidence (hasEvidenceForTask agent s) = (\<exists>e \<in> set (evidence s). evidence_agentId e = agent)"
  by (auto simp: hasEvidenceForTask_def filter_empty_conv)

lemma evidence_prune [simp]: "evidence (pruneExpiredClaims t s) = evidence s"
  by (simp add: pruneExpiredClaims_def)

lemma hall_claim_release_no_evidence:
  assumes "ClaimReleaseInput_parse args = Inr args"
    and "\<exists>r \<in> set (claims s). agent_id r = cr_agentId args \<and> t < expires_at r"
    and "\<not> (\<exists>e \<in> set (evidence s). evidence_agentId e = cr_agentId args)"
  shows "hall_claim_release args t s =
     (\<lparr>content = ReleaseRejection ''rejected'' ''NO_EVIDENCE''
          ''You must attach evidence (hall_evidence_attach) proving your work before releasing claims. No receipts = no release.''
          (map file_path (filter (\<lambda>r. agent_id r = cr_agentId args \<and> t < expires_at r) (claims s))),
       isError = Some True\<rparr>, pruneExpiredClaims t s)"
proof -
  have "filter (\<lambda>r. agent_id r = cr_agentId args \<and> t < expires_at r) (claims s) \<noteq> []"
    using assms(2) by (auto simp: filter_empty_conv)
  then show ?thesis
    using assms(1,3)
    by (simp add: hall_claim_release_def getAgentClaims_eq hasEvidence_eq Let_def)
qed

lemma findConflicts_set:
  assumes "paths \<noteq> []"
  shows "distinct (findConflicts agent paths t s) \<and>
         set (findConflicts agent paths t s) =
           {a. a \<noteq> agent \<and> (\<exists>r \<in> set (claims s). agent_id r = a \<and> file_path r \<in> set paths \<and>
                                  t < expires_at r)}"
  using assms by (auto simp: findConflicts_def)

lemma hall_claim_conflict:
  assumes "ClaimCreateInput_parse args = Inr args"
    and "hasIntent (hasIntentForFiles (cc_agentId args) (cc_files args) s)"
    and "findConflicts (cc_agentId args) (cc_files args) t3 (pruneExpiredClaims t1 s) \<noteq> []"
  shows "hall_claim args t1 t2 t3 s =
     (\<lparr>content = ClaimReply ''conflict''
          (claim (fst (createClaim (cc_agentId args) (cc_files args)
                    (case cc_ttlSeconds args of None \<Rightarrow> 900 | Some n \<Rightarrow> n) t1 t2 t3 s)))
          (findConflicts (cc_agentId args) (cc_files args) t3 (pruneExpiredClaims t1 s))
          (Some (''Files already claimed by: '' @ join '', ''
             (findConflicts (cc_agentId args) (cc_files args) t3 (pruneExpiredClaims t1 s)))),
       isError = None\<rparr>, pruneExpiredClaims t1 s)"
  using assms by (simp add: hall_claim_def createClaim_def Let_def)

text \<open>
  Claim C3, as the code has it, for arguments that fit the schema of the tool.
  \<^verbatim>\<open>hall_claim\<close> is rejected with reason \<^verbatim>\<open>NO_INTENT\<close> and \<^verbatim>\<open>isError\<close> set whenever some
  requested file has no intent of the calling agent; the rejection carries exactly the
  requested files without one, and the store is left as it was.
  \<^verbatim>\<open>hall_claim_release\<close> is rejected with reason \<^verbatim>\<open>NO_EVIDENCE\<close> and \<^verbatim>\<open>isError\<close> set whenever
  the calling agent holds at least one active claim and has no evidence recorded; its leases
  stay held (only the sweep of expired rows has happened).
\<close>

theorem workflow_ordering:
  "(ClaimCreateInput_parse cargs = Inr cargs \<and>
    (\<exists>f \<in> set (cc_files cargs).
       \<not> (\<exists>i \<in> set (intents s). intent_agentId i = cc_agentId cargs \<and> f \<in> set (intent_files i)))
    \<longrightarrow>
    (let missing = filter (\<lambda>f. \<not> (\<exists>i \<in> set (intents s).
                             intent_agentId i = cc_agentId cargs \<and> f \<in> set (intent_files i)))
                     (cc_files cargs)
     in missing \<noteq> [] \<and>
        hall_claim cargs t1 t2 t3 s =
          (\<lparr>content = ClaimRejection ''rejected'' ''NO_INTENT''
               (''You must post an intent (hall_intent_post) before claiming files. Missing intent for: ''
                  @ join '', '' missing)
               missing,
            isError = Some True\<rparr>, s))) \<and>
   (ClaimReleaseInput_parse rargs = Inr rargs \<and>
    (\<exists>r \<in> set (claims s). agent_id r = cr_agentId rargs \<and> t < expires_at r) \<and>
    \<not> (\<exists>e \<in> set (evidence s). evidence_agentId e = cr_agentId rargs)
    \<longrightarrow>
    hall_claim_release rargs t s =
      (\<lparr>content = ReleaseRejection ''rejected'' ''NO_EVIDENCE''
           ''You must attach evidence (hall_evidence_attach) proving your work before releasing claims. No receipts = no release.''
           (map file_path
              (filter (\<lambda>r. agent_id r = cr_agentId rargs \<and> t < expires_at r) (claims s))),
        isError = Some True\<rparr>, pruneExpiredClaims t s))"
proof (intro conjI impI)
  assume a: "ClaimCreateInput_parse cargs = Inr cargs \<and>
    (\<exists>f \<in> set (cc_files cargs).
       \<not> (\<exists>i \<in> set (intents s). intent_agentId i = cc_agentId cargs \<and> f \<in> set (intent_files i)))"
  then have "\<not> hasIntent (hasIntentForFiles (cc_agentId cargs) (cc_files cargs) s)"
    unfolding hasIntent_eq by blast
  from hall_claim_no_intent [OF conjunct1 [OF a] this, of t1 t2 t3]
  have "hall_claim cargs t1 t2 t3 s =
     (\<lparr>content = ClaimRejection ''rejected'' ''NO_INTENT''
          (''You must post an intent (hall_intent_post) before claiming files. Missing intent for: ''
             @ join '', '' (missingFiles (hasIntentForFiles (cc_agentId cargs) (cc_files cargs) s)))
          (missingFiles (hasIntentForFiles (cc_agentId cargs) (cc_files cargs) s)),
       isError = Some True\<rparr>, s)" .
  moreover have "filter (\<lambda>f. \<not> (\<exists>i \<in> set (intents s).
                             intent_agentId i = cc_agentId cargs \<and> f \<in> set (intent_files i)))
                     (cc_files cargs) \<noteq> []"
    using a unfolding filter_empty_conv by blast
  ultimately show "let missing = filter (\<lambda>f. \<not> (\<exists>i \<in> set (intents s).
                             intent_agentId i = cc_agentId cargs \<and> f \<in> set (intent_files i)))
                     (cc_files cargs)
     in missing \<noteq> [] \<and>
        hall_claim cargs t1 t2 t3 s =
          (\<lparr>content = ClaimRejection ''rejected'' ''NO_INTENT''
               (''You must post an intent (hall_intent_post) before claiming files. Missing intent for: ''
                  @ join '', '' missing)
               missing,
            isError = Some True\<rparr>, s)"
    unfolding missingFiles_eq Let_def by blast
next
  assume b: "ClaimReleaseInput_parse rargs = Inr rargs \<and>
    (\<exists>r \<in> set (claims s). agent_id r = cr_agentId rargs \<and> t < expires_at r) \<and>
    \<not> (\<exists>e \<in> set (evidence s). evidence_agentId e = cr_agentId rargs)"
  then show "hall_claim_release rargs t s =
      (\<lparr>content = ReleaseRejection ''rejected'' ''NO_EVIDENCE''
           ''You must attach evidence (hall_evidence_attach) proving your work before releasing claims. No receipts = no release.''
           (map file_path
              (filter (\<lambda>r. agent_id r = cr_agentId rargs \<and> t < expires_at r) (claims s))),
        isError = Some True\<rparr>, pruneExpiredClaims t s)"
    using hall_claim_release_no_evidence [of rargs s t] by blast
qed

theorem workflow_ordering_witness:
  "hall_claim \<lparr>cc_agentId = ''B'', cc_files = [''x.ts'', ''y.ts''], cc_ttlSeconds = Some 60\<rparr>
      1000 1000 1000 exampleDb =
     (\<lparr>content = ClaimRejection ''rejected'' ''NO_INTENT''
          ''You must post an intent (hall_intent_post) before claiming files. Missing intent for: y.ts''
          [''y.ts''],
       isError = Some True\<rparr>, exampleDb) \<and>
   hall_claim_release \<lparr>cr_agentId = ''A'', cr_files = None\<rparr> 1000 exampleDb =
     (\<lparr>content = ReleaseRejection ''rejected'' ''NO_EVIDENCE''
          ''You must attach evidence (hall_evidence_attach) proving your work before releasing claims. No receipts = no release.''
          [''x.ts''],
       isError = Some True\<rparr>, pruneExpiredClaims 1000 exampleDb)"
proof -
  let ?c = "\<lparr>cc_agentId = ''B'', cc_files = [''x.ts'', ''y.ts''], cc_ttlSeconds = Some 60\<rparr>"
  let ?r = "\<lparr>cr_agentId = ''A'', cr_files = None\<rparr>"
  have h1: "ClaimCreateInput_parse ?c = Inr ?c \<and>
    (\<exists>f \<in> set (cc_files ?c).
       \<not> (\<exists>i \<in> set (intents exampleDb). intent_agentId i = cc_agentId ?c \<and> f \<in> set (intent_files i)))"
    by (simp add: ClaimCreateInput_parse_def exampleDb_def)
  have h2: "ClaimReleaseInput_parse ?r = Inr ?r \<and>
    (\<exists>r \<in> set (claims exampleDb). agent_id r = cr_agentId ?r \<and> 1000 < expires_at r) \<and>
    \<not> (\<exists>e \<in> set (evidence exampleDb). evidence_agentId e = cr_agentId ?r)"
    by (simp add: ClaimReleaseInput_parse_def exampleDb_def)
  from workflow_ordering [of ?c exampleDb 1000 1000 1000 ?r 1000] h1 h2
  show ?thesis by (simp add: exampleDb_def Let_def)
qed

text \<open>
  Claim C3, as stated, has \<^verbatim>\<open>hall_claim_release\<close> fail whenever the calling agent has no
  evidence recorded. The handler asks for evidence only when the agent holds an active
  claim: agent B, with no evidence and no lease in the sample store, releases with status
  \<^verbatim>\<open>ok\<close>.
\<close>

theorem release_unguarded_counterexample:
  "evidence exampleDb = [] \<and>
   hall_claim_release \<lparr>cr_agentId = ''B'', cr_files = None\<rparr> 1000 exampleDb =
     (\<lparr>content = ReleaseReply ''ok'' 0 None, isError = None\<rparr>, exampleDb)"
  by (simp add: exampleDb_def hall_claim_release_def ClaimReleaseInput_parse_def
      getAgentClaims_def hasEvidenceForTask_def releaseClaims_def pruneExpiredClaims_def Let_def)

section \<open>Conflicts are returned as data\<close>

text \<open>
  Claim C7, as the code has it. Let the arguments fit the schema, let every requested file
  have an intent of the caller, let the clock not run backwards between the sweep and the
  conflict query, and let some requested path carry a lease of another agent that is live
  at the clock reading \<open>t3\<close> of the conflict query. Then \<^verbatim>\<open>hall_claim\<close> returns a result
  without \<^verbatim>\<open>isError\<close>, of status \<^verbatim>\<open>conflict\<close>, whose \<^verbatim>\<open>conflictsWith\<close> lists, each once,
  exactly the agents other than the caller that hold a lease with \<^verbatim>\<open>expiresAt > t3\<close> on a
  requested path; the store is only swept.
\<close>

theorem conflict_is_data:
  assumes "ClaimCreateInput_parse args = Inr args"
    and "\<forall>f \<in> set (cc_files args).
           \<exists>i \<in> set (intents s). intent_agentId i = cc_agentId args \<and> f \<in> set (intent_files i)"
    and "t1 \<le> t3"
    and "\<exists>r \<in> set (claims s).
           agent_id r \<noteq> cc_agentId args \<and> file_path r \<in> set (cc_files args) \<and> t3 < expires_at r"
  shows
    "(let holders = findConflicts (cc_agentId args) (cc_files args) t3 (pruneExpiredClaims t1 s);
          ttlSeconds = (case cc_ttlSeconds args of None \<Rightarrow> 900 | Some n \<Rightarrow> n)
      in hall_claim args t1 t2 t3 s =
           (\<lparr>content = ClaimReply ''conflict''
                \<lparr>agentId = cc_agentId args, files = cc_files args,
                 expiresAt = t2 + max 5 ttlSeconds * 1000, createdAt = t2\<rparr>
                holders
                (Some (''Files already claimed by: '' @ join '', '' holders)),
             isError = None\<rparr>, pruneExpiredClaims t1 s) \<and>
         distinct holders \<and>
         set holders =
           {a. a \<noteq> cc_agentId args \<and>
               (\<exists>r \<in> set (claims s). agent_id r = a \<and> file_path r \<in> set (cc_files args) \<and>
                                       t3 < expires_at r)})"
proof -
  let ?cw = "findConflicts (cc_agentId args) (cc_files args) t3 (pruneExpiredClaims t1 s)"
  have ne: "cc_files args \<noteq> []" using assms(4) by auto
  have live: "(r \<in> set (claims (pruneExpiredClaims t1 s)) \<and> t3 < expires_at r) =
              (r \<in> set (claims s) \<and> t3 < expires_at r)" for r
    using assms(3) by auto
  have set_cw: "set ?cw =
      {a. a \<noteq> cc_agentId args \<and>
          (\<exists>r \<in> set (claims s). agent_id r = a \<and> file_path r \<in> set (cc_files args) \<and>
                                  t3 < expires_at r)}"
    using findConflicts_set [OF ne, of "cc_agentId args" t3 "pruneExpiredClaims t1 s"] live
    by blast
  have dist: "distinct ?cw"
    using findConflicts_set [OF ne, of "cc_agentId args" t3 "pruneExpiredClaims t1 s"] by blast
  have "set ?cw \<noteq> {}" unfolding set_cw using assms(4) by blast
  then have cw_ne: "?cw \<noteq> []" by auto
  have intent: "hasIntent (hasIntentForFiles (cc_agentId args) (cc_files args) s)"
    unfolding hasIntent_eq using assms(2) .
  have "claim (fst (createClaim (cc_agentId args) (cc_files args)
                    (case cc_ttlSeconds args of None \<Rightarrow> 900 | Some n \<Rightarrow> n) t1 t2 t3 s)) =
        \<lparr>agentId = cc_agentId args, files = cc_files args,
         expiresAt = t2 + max 5 (case cc_ttlSeconds args of None \<Rightarrow> 900 | Some n \<Rightarrow> n) * 1000,
         createdAt = t2\<rparr>"
    by (simp add: createClaim_def Let_def)
  with hall_claim_conflict [OF assms(1) intent cw_ne, of t2] dist set_cw
  show ?thesis unfolding Let_def by simp
qed

theorem conflict_is_data_witness:
  "hall_claim \<lparr>cc_agentId = ''B'', cc_files = [''x.ts''], cc_ttlSeconds = None\<rparr>
      1000 1000 1000 exampleDb =
     (\<lparr>content = ClaimReply ''conflict''
          \<lparr>agentId = ''B'', files = [''x.ts''], expiresAt = 901000, createdAt = 1000\<rparr>
          [''A''] (Some ''Files already claimed by: A''),
       isError = None\<rparr>, exampleDb)"
proof -
  let ?a = "\<lparr>cc_agentId = ''B'', cc_files = [''x.ts''], cc_ttlSeconds = None\<rparr>"
  have h1: "ClaimCreateInput_parse ?a = Inr ?a"
    by (simp add: ClaimCreateInput_parse_def)
  have h2: "\<forall>f \<in> set (cc_files ?a).
           \<exists>i \<in> set (intents exampleDb). intent_agentId i = cc_agentId ?a \<and> f \<in> set (intent_files i)"
    by (simp add: exampleDb_def)
  have h3: "(1000::int) \<le> 1000" by simp
  have h4: "\<exists>r \<in> set (claims exampleDb).
           agent_id r \<noteq> cc_agentId ?a \<and> file_path r \<in> set (cc_files ?a) \<and> 1000 < expires_at r"
    by (simp add: exampleDb_def)
  from conflict_is_data [OF h1 h2 h3 h4, of 1000]
  show ?thesis
    by (simp add: Let_def findConflicts_def pruneExpiredClaims_def exampleDb_def)
qed

text \<open>
  Claim C7, as stated, has \<^verbatim>\<open>hall_claim\<close> return the conflict as data whenever a requested path
  is covered by a live lease of another agent. The intent check comes first: agent C, with
  no intent posted, asks for \<^verbatim>\<open>x.ts\<close>, which A holds; the answer is the \<^verbatim>\<open>NO_INTENT\<close>
  rejection with \<^verbatim>\<open>isError\<close> set, not a conflict.
\<close>

theorem conflict_behind_intent_check_counterexample:
  "liveHolders ''x.ts'' 1000 exampleDb = [''A''] \<and>
   ClaimCreateInput_parse \<lparr>cc_agentId = ''C'', cc_files = [''x.ts''], cc_ttlSeconds = None\<rparr> =
     Inr \<lparr>cc_agentId = ''C'', cc_files = [''x.ts''], cc_ttlSeconds = None\<rparr> \<and>
   hall_claim \<lparr>cc_agentId = ''C'', cc_files = [''x.ts''], cc_ttlSeconds = None\<rparr>
      1000 1000 1000 exampleDb =
     (\<lparr>content = ClaimRejection ''rejected'' ''NO_INTENT''
          ''You must post an intent (hall_intent_post) before claiming files. Missing intent for: x.ts''
          [''x.ts''],
       isError = Some True\<rparr>, exampleDb)"
  by (simp add: liveHolders_def exampleDb_def hall_claim_def ClaimCreateInput_parse_def
      hasIntentForFiles_def Let_def)

section \<open>Release without active claims\<close>

text \<open>
  Claim C10. For arguments that fit the schema, if the calling agent holds no active claim
  (none of its lease rows is live at the clock reading of the call), then
  \<^verbatim>\<open>hall_claim_release\<close> answers with status \<^verbatim>\<open>ok\<close> and \<^verbatim>\<open>released = 0\<close>, without \<^verbatim>\<open>isError\<close>,
  whatever the evidence table holds: the evidence check is not reached.
\<close>

theorem release_without_active_claims:
  assumes "ClaimReleaseInput_parse args = Inr args"
    and "\<forall>r \<in> set (claims s). agent_id r = cr_agentId args \<longrightarrow> expires_at r \<le> t"
  shows "hall_claim_release args t s =
     (\<lparr>content = ReleaseReply ''ok'' 0 (cr_files args), isError = None\<rparr>, pruneExpiredClaims t s)"
proof -
  have none: "filter (\<lambda>r. agent_id r = cr_agentId args \<and> t < expires_at r) (claims s) = []"
    using assms(2) by (auto simp: filter_empty_conv)
  have rel: "releaseClaims (cr_agentId args) (cr_files args) (pruneExpiredClaims t s) =
             (0, pruneExpiredClaims t s)"
  proof -
    have a: "filter (\<lambda>r. agent_id r = cr_agentId args \<and> Q r) (claims (pruneExpiredClaims t s)) = []" for Q
      using assms(2) by (auto simp: filter_empty_conv)
    have b: "filter (\<lambda>r. \<not> (agent_id r = cr_agentId args \<and> Q r)) (claims (pruneExpiredClaims t s))
               = claims (pruneExpiredClaims t s)" for Q
      using assms(2) by (auto intro!: filter_cong)
    show ?thesis
      using a [of "\<lambda>r. True"] b [of "\<lambda>r. True"] a b
      by (cases "cr_files args") (simp_all add: releaseClaims_def Let_def del: claims_prune)
  qed
  show ?thesis
    using assms(1) none
    by (simp add: hall_claim_release_def getAgentClaims_eq rel Let_def)
qed

theorem release_without_active_claims_witness:
  "evidence exampleDb = [] \<and>
   hall_claim_release \<lparr>cr_agentId = ''A'', cr_files = Some [''x.ts'']\<rparr> 900000 exampleDb =
     (\<lparr>content = ReleaseReply ''ok'' 0 (Some [''x.ts'']), isError = None\<rparr>,
      exampleDb\<lparr>claims := []\<rparr>)"
proof -
  let ?a = "\<lparr>cr_agentId = ''A'', cr_files = Some [''x.ts'']\<rparr>"
  have h1: "ClaimReleaseInput_parse ?a = Inr ?a"
    by (simp add: ClaimReleaseInput_parse_def)
  have h2: "\<forall>r \<in> set (claims exampleDb). agent_id r = cr_agentId ?a \<longrightarrow> expires_at r \<le> 900000"
    by (simp add: exampleDb_def)
  from release_without_active_claims [OF h1 h2]
  show ?thesis by (simp add: exampleDb_def pruneExpiredClaims_def)
qed


end
